theory Spec2Isabelle
  imports Complex_Main "HOL-Library.Product_Lexorder" "HOL-Library.AList"
begin

section \<open>Temporal-difference update rules of \<^verbatim>\<open>algos.py\<close>\<close>

text \<open>
  Floats are idealised as reals.  Python objects become records that are passed in and
  returned updated; an exception becomes a value of \<open>error\<close>.
\<close>

datatype error = TypeError | AttributeError | KeyError | IndexError

subsection \<open>External collaborators\<close>

text \<open>
  The agent (\<^verbatim>\<open>baseagent.Agent\<close>) is a parameter: its state is the type variable \<open>'ag\<close>
  and its methods are the fields of this record.  \<open>action_spec\<close> stands for
  \<^verbatim>\<open>agent.env.action_spec\<close>.
\<close>

record ('ag, 's, 'a) Agent =
  q :: "'ag \<Rightarrow> 's \<Rightarrow> 'a \<Rightarrow> real"
  best_action :: "'ag \<Rightarrow> 's \<Rightarrow> 'a"
  best_action_val :: "'ag \<Rightarrow> 's \<Rightarrow> real"
  action_prob :: "'ag \<Rightarrow> 's \<Rightarrow> 'a \<Rightarrow> real"
  action_spec :: "'ag \<Rightarrow> 's \<Rightarrow> 'a list"
  get_action :: "'ag \<Rightarrow> 's \<Rightarrow> 'a \<times> 'ag"
  update_agent :: "'ag \<Rightarrow> real \<Rightarrow> 's \<Rightarrow> 'a \<Rightarrow> 'ag"

text \<open>
  Modelled from the spec: \<^verbatim>\<open>baseagent.Command\<close>, the unit of output.
  \<open>NoUpdate\<close> is \<^verbatim>\<open>Command(update=False)\<close>; \<open>Command ret tgt_s tgt_a terminate\<close> is
  \<^verbatim>\<open>Command(ret, tgt_s, tgt_a, terminate)\<close>, whose \<open>shouldUpdate\<close> is true.  The target
  state and action are read from a buffer slot and are \<open>None\<close> when that slot still
  holds the default fill.
\<close>

datatype ('s, 'a) Command = NoUpdate | Command real "'s option" "'a option" bool

text \<open>
  Modelled from the spec: \<^verbatim>\<open>utils.Buffer\<close>, a fixed-capacity indexed store with a
  default fill value and wrap-around addressing by absolute step index (slot
  \<open>i mod capacity\<close>).
\<close>

type_synonym 'v Buffer = "'v list"

definition Buffer :: "nat \<Rightarrow> 'v \<Rightarrow> 'v Buffer" where
  "Buffer capacity fill = replicate capacity fill"

definition Buffer_get :: "'v Buffer \<Rightarrow> int \<Rightarrow> 'v" where
  "Buffer_get b i = b ! nat (i mod int (length b))"

definition Buffer_set :: "'v Buffer \<Rightarrow> int \<Rightarrow> 'v \<Rightarrow> 'v Buffer" where
  "Buffer_set b i v = b[nat (i mod int (length b)) := v]"

subsection \<open>NStepAlgo\<close>

text \<open>
  A buffer slot is \<open>Some (s, a, r)\<close>, or \<open>None\<close> for the default fill
  \<^verbatim>\<open>(None, None, None)\<close>.
\<close>

type_synonym ('s, 'a) slot = "('s \<times> 'a \<times> real) option"

text \<open>\<^verbatim>\<open>T_step\<close> is \<^verbatim>\<open>np.inf\<close> or an integer step.\<close>

datatype tstep = NpInf | Fin int

fun lt_tstep :: "int \<Rightarrow> tstep \<Rightarrow> bool" where
  "lt_tstep t NpInf = True"
| "lt_tstep t (Fin T) = (t < T)"

fun min_tstep :: "int \<Rightarrow> tstep \<Rightarrow> int" where
  "min_tstep i NpInf = i"
| "min_tstep i (Fin T) = min i T"

text \<open>\<^verbatim>\<open>tgt_t >= self.T_step - 1\<close>\<close>

fun ge_tstep_minus_1 :: "int \<Rightarrow> tstep \<Rightarrow> bool" where
  "ge_tstep_minus_1 i NpInf = False"
| "ge_tstep_minus_1 i (Fin T) = (i \<ge> T - 1)"

text \<open>
  The object: \<open>buffer\<close> and \<open>T_step\<close> are \<open>None\<close> between \<^verbatim>\<open>__init__\<close> and the first
  \<^verbatim>\<open>init_episode\<close>.
\<close>

record ('s, 'a) NStepAlgo =
  gamma :: real
  nstep :: nat
  buffer :: "('s, 'a) slot Buffer option"
  T_step :: "tstep option"

definition NStepAlgo_init :: "real \<Rightarrow> nat \<Rightarrow> ('s, 'a) NStepAlgo" where
  "NStepAlgo_init g n = \<lparr>gamma = g, nstep = n, buffer = None, T_step = None\<rparr>"

text \<open>
  The two abstract hooks of a subclass.  Each takes \<open>self\<close> (for \<open>gamma\<close>), the agent
  state and an unpacked slot.
\<close>

record ('ag, 's, 'a) ReturnPolicy =
  end_return :: "('s, 'a) NStepAlgo \<Rightarrow> 'ag \<Rightarrow> 's \<Rightarrow> 'a \<Rightarrow> real \<Rightarrow> real"
  step_return :: "('s, 'a) NStepAlgo \<Rightarrow> 'ag \<Rightarrow> 's \<Rightarrow> 'a \<Rightarrow> real \<Rightarrow> real \<Rightarrow> real"

text \<open>
  \<^verbatim>\<open>self.end_return(agent, *self.buffer.get(i))\<close>: on a slot that still holds the
  default fill the reward is \<^verbatim>\<open>None\<close> and every policy of the file adds it to a float.
\<close>

definition call_end_return ::
  "('ag, 's, 'a) ReturnPolicy \<Rightarrow> ('s, 'a) NStepAlgo \<Rightarrow> 'ag \<Rightarrow> ('s, 'a) slot \<Rightarrow> error + real" where
  "call_end_return P self ag sl =
     (case sl of None \<Rightarrow> Inl TypeError
      | Some (s, a, r) \<Rightarrow> Inr (end_return P self ag s a r))"

definition call_step_return ::
  "('ag, 's, 'a) ReturnPolicy \<Rightarrow> ('s, 'a) NStepAlgo \<Rightarrow> 'ag \<Rightarrow> ('s, 'a) slot \<Rightarrow> real \<Rightarrow> error + real" where
  "call_step_return P self ag sl rt =
     (case sl of None \<Rightarrow> Inl TypeError
      | Some (s, a, r) \<Rightarrow> Inr (step_return P self ag s a r rt))"

definition init_episode :: "('s, 'a) NStepAlgo \<Rightarrow> 's \<Rightarrow> 'a \<Rightarrow> ('s, 'a) NStepAlgo" where
  "init_episode self s a =
     self\<lparr>buffer := Some (Buffer_set (Buffer (nstep self + 1) None) 0 (Some (s, a, 0))),
          T_step := Some NpInf\<rparr>"

text \<open>The loop \<^verbatim>\<open>for i in range(end_t - 1, tgt_t, -1)\<close> of \<^verbatim>\<open>get_return\<close>, from index \<open>i\<close> on.\<close>

function get_return_loop ::
  "('ag, 's, 'a) ReturnPolicy \<Rightarrow> ('s, 'a) NStepAlgo \<Rightarrow> 'ag \<Rightarrow> ('s, 'a) slot Buffer \<Rightarrow>
   int \<Rightarrow> int \<Rightarrow> real \<Rightarrow> error + real" where
  "get_return_loop P self ag b i tgt_t rt =
     (if i > tgt_t then
        (case call_step_return P self ag (Buffer_get b i) rt of
           Inl e \<Rightarrow> Inl e
         | Inr rt' \<Rightarrow> get_return_loop P self ag b (i - 1) tgt_t rt')
      else Inr rt)"
  by pat_completeness auto
termination
  by (relation "measure (\<lambda>(P, self, ag, b, i, tgt_t, rt). nat (i - tgt_t))") auto

declare get_return_loop.simps [simp del]

definition get_return ::
  "('ag, 's, 'a) ReturnPolicy \<Rightarrow> ('s, 'a) NStepAlgo \<Rightarrow> 'ag \<Rightarrow> int \<Rightarrow> int \<Rightarrow> error + real" where
  "get_return P self ag t tgt_t =
     (case T_step self of None \<Rightarrow> Inl TypeError
      | Some T \<Rightarrow>
        (case buffer self of None \<Rightarrow> Inl AttributeError
         | Some b \<Rightarrow>
           (let end_t = min_tstep (t + 1) T in
            case call_end_return P self ag (Buffer_get b end_t) of
              Inl e \<Rightarrow> Inl e
            | Inr rt \<Rightarrow> get_return_loop P self ag b (end_t - 1) tgt_t rt)))"

text \<open>
  \<^verbatim>\<open>NStepAlgo.__call__\<close>.  The object is returned as the call leaves it, also when the
  call raises.
\<close>

definition NStepAlgo_call ::
  "('ag, 's, 'a) ReturnPolicy \<Rightarrow> ('s, 'a) NStepAlgo \<Rightarrow> 'ag \<Rightarrow>
   's \<Rightarrow> 'a \<Rightarrow> real \<Rightarrow> 's \<Rightarrow> 'a \<Rightarrow> int \<Rightarrow> bool \<Rightarrow>
   ('s, 'a) NStepAlgo \<times> (error + ('s, 'a) Command)" where
  "NStepAlgo_call P self ag s a r new_s new_a t is_terminal =
     (let self1 = (if T_step self = Some NpInf \<and> is_terminal
                   then self\<lparr>T_step := Some (Fin (t + 1))\<rparr> else self)
      in case T_step self1 of None \<Rightarrow> (self1, Inl TypeError)
      | Some T \<Rightarrow>
        (case (if lt_tstep t T
               then (case buffer self1 of None \<Rightarrow> Inl AttributeError
                     | Some b \<Rightarrow> Inr (self1\<lparr>buffer := Some (Buffer_set b (t + 1) (Some (new_s, new_a, r)))\<rparr>))
               else Inr self1) of
           Inl e \<Rightarrow> (self1, Inl e)
         | Inr self2 \<Rightarrow>
           (let tgt_t = t - int (nstep self2) + 1 in
            if tgt_t < 0 then (self2, Inr NoUpdate)
            else
              (case buffer self2 of None \<Rightarrow> (self2, Inl AttributeError)
               | Some b \<Rightarrow>
                 (let tgt = Buffer_get b tgt_t;
                      tgt_s = map_option fst tgt;
                      tgt_a = map_option (fst \<circ> snd) tgt
                  in case get_return P self2 ag t tgt_t of
                       Inl e \<Rightarrow> (self2, Inl e)
                     | Inr rt \<Rightarrow>
                       (self2, Inr (Command rt tgt_s tgt_a (ge_tstep_minus_1 tgt_t T))))))))"

subsection \<open>The return policies\<close>

definition Sarsa :: "('ag, 's, 'a) Agent \<Rightarrow> ('ag, 's, 'a) ReturnPolicy" where
  "Sarsa A =
     \<lparr>end_return = (\<lambda>self ag s a r. r + gamma self * q A ag s a),
      step_return = (\<lambda>self ag s a r rt. r + gamma self * rt)\<rparr>"

definition ExpectedSarsa :: "('ag, 's, 'a) Agent \<Rightarrow> ('ag, 's, 'a) ReturnPolicy" where
  "ExpectedSarsa A =
     \<lparr>end_return = (\<lambda>self ag s a r.
        r + gamma self * sum_list (map (\<lambda>cur_a. action_prob A ag s cur_a * q A ag s cur_a)
                                       (action_spec A ag s))),
      step_return = (\<lambda>self ag s a r rt. r + gamma self * rt)\<rparr>"

definition QLearn :: "('ag, 's, 'a) Agent \<Rightarrow> ('ag, 's, 'a) ReturnPolicy" where
  "QLearn A =
     \<lparr>end_return = (\<lambda>self ag s a r. r + gamma self * best_action_val A ag s),
      step_return = (\<lambda>self ag s a r rt. r + gamma self * rt)\<rparr>"

definition TreeLearn :: "('ag, 's, 'a) Agent \<Rightarrow> ('ag, 's, 'a) ReturnPolicy" where
  "TreeLearn A =
     \<lparr>end_return = (\<lambda>self ag s a r. r + gamma self * best_action_val A ag s),
      step_return = (\<lambda>self ag s a r rt.
        (let best_a = best_action A ag s;
             tmp = (if a = best_a then rt else q A ag s best_a)
         in r + gamma self * tmp))\<rparr>"

definition OnPolicyTreeLearn :: "('ag, 's, 'a) Agent \<Rightarrow> ('ag, 's, 'a) ReturnPolicy" where
  "OnPolicyTreeLearn A =
     \<lparr>end_return = (\<lambda>self ag s a r. r + gamma self * best_action_val A ag s),
      step_return = (\<lambda>self ag s a r rt.
        (let tmp = sum_list (map (\<lambda>cur_a. action_prob A ag s cur_a *
                                    (if cur_a = a then rt else q A ag s cur_a))
                                 (action_spec A ag s))
         in r + gamma self * tmp))\<rparr>"

subsection \<open>Python containers\<close>

text \<open>
  A \<^verbatim>\<open>dict\<close> is an association list in insertion order: \<open>map_of d k\<close> looks a key up
  (\<open>None\<close> is a \<^verbatim>\<open>KeyError\<close> at a subscript), \<open>AList.update k v d\<close> is \<^verbatim>\<open>d[k] = v\<close> (an
  existing key keeps its place, a new one goes last) and \<open>map fst d\<close> is
  \<^verbatim>\<open>list(d.keys())\<close>.
\<close>

type_synonym ('k, 'v) dict = "('k \<times> 'v) list"

text \<open>
  A \<^verbatim>\<open>set\<close> is a list without repetition.  Python leaves the iteration order of a set
  open; the list fixes one.
\<close>

definition set_add :: "'x list \<Rightarrow> 'x \<Rightarrow> 'x list" where
  "set_add xs x = (if x \<in> set xs then xs else xs @ [x])"

definition set_remove :: "'x list \<Rightarrow> 'x \<Rightarrow> error + 'x list" where
  "set_remove xs x = (if x \<in> set xs then Inr (remove1 x xs) else Inl KeyError)"

text \<open>
  \<^verbatim>\<open>random.choices(population, k=k)\<close>: draw \<open>i\<close> is
  \<^verbatim>\<open>population[floor(random() * n)]\<close>.  The generator is the parameter \<open>rnd\<close>, whose
  \<open>i\<close>-th value is reduced to an index below \<open>n\<close>.
\<close>

definition random_choices :: "(nat \<Rightarrow> nat) \<Rightarrow> 'x list \<Rightarrow> nat \<Rightarrow> error + 'x list" where
  "random_choices rnd population k =
     (if k = 0 then Inr []
      else if population = [] then Inl IndexError
      else Inr (map (\<lambda>i. population ! (rnd i mod length population)) [0..<k]))"

text \<open>
  \<^verbatim>\<open>heapq\<close> by its documented contract: the heap is the list of its entries,
  \<^verbatim>\<open>heappush\<close> adds an entry and \<^verbatim>\<open>heappop\<close> removes and returns a smallest one
  (\<^verbatim>\<open>IndexError\<close> on an empty heap).  Entries are compared with \<open>\<le>\<close>; on pairs that
  is the lexicographic order, as for Python tuples.
\<close>

definition heappush :: "'x list \<Rightarrow> 'x \<Rightarrow> 'x list" where
  "heappush h x = h @ [x]"

fun heappop :: "('x::linorder) list \<Rightarrow> error + ('x \<times> 'x list)" where
  "heappop [] = Inl IndexError"
| "heappop (x # xs) = (let m = fold min xs x in Inr (m, remove1 m (x # xs)))"

subsection \<open>Dyna\<close>

text \<open>
  \<open>algo\<close> is the inner rule's object; its \<^verbatim>\<open>__call__\<close> is the parameter \<open>algo_call\<close> of
  \<open>Dyna_call\<close>.  \<open>plan_algo\<close> is an \<open>NStepAlgo\<close> object whose class (its two hooks) is the
  parameter \<open>P\<close>.
\<close>

record ('alg, 's, 'a) Dyna =
  algo :: 'alg
  plan_algo :: "('s, 'a) NStepAlgo"
  nsim :: nat
  model :: "('s \<times> 'a, 's \<times> real) dict"

definition Dyna_init :: "'alg \<Rightarrow> ('s, 'a) NStepAlgo \<Rightarrow> nat \<Rightarrow> ('alg, 's, 'a) Dyna" where
  "Dyna_init al pl n = \<lparr>algo = al, plan_algo = pl, nsim = n, model = []\<rparr>"

type_synonym ('alg, 'ag, 's, 'a) algo_call =
  "'alg \<Rightarrow> 'ag \<Rightarrow> 's \<Rightarrow> 'a \<Rightarrow> real \<Rightarrow> 's \<Rightarrow> 'a \<Rightarrow> int \<Rightarrow> bool \<Rightarrow>
   ('alg \<times> 'ag) \<times> (error + ('s, 'a) Command)"

text \<open>An \<open>NStepAlgo\<close> as an inner rule: it reads the agent and leaves it as it is.\<close>

definition NStepAlgo_as_algo ::
  "('ag, 's, 'a) ReturnPolicy \<Rightarrow> (('s, 'a) NStepAlgo, 'ag, 's, 'a) algo_call" where
  "NStepAlgo_as_algo P self ag s a r new_s new_a t is_terminal =
     (case NStepAlgo_call P self ag s a r new_s new_a t is_terminal of
        (self', res) \<Rightarrow> ((self', ag), res))"

definition Dyna_update ::
  "('alg, 's, 'a, 'z) Dyna_scheme \<Rightarrow> 's \<Rightarrow> 'a \<Rightarrow> 's \<Rightarrow> 'a \<Rightarrow> real \<Rightarrow> ('alg, 's, 'a, 'z) Dyna_scheme" where
  "Dyna_update self s a new_s new_a r = self\<lparr>model := AList.update (s, a) (new_s, r) (model self)\<rparr>"

definition step_sim ::
  "('ag, 's, 'a) Agent \<Rightarrow> ('ag, 's, 'a) ReturnPolicy \<Rightarrow> ('alg, 's, 'a, 'z) Dyna_scheme \<Rightarrow>
   'ag \<Rightarrow> 's \<Rightarrow> 'a \<Rightarrow> error + 'ag" where
  "step_sim A P self ag s a =
     (case map_of (model self) (s, a) of None \<Rightarrow> Inl KeyError
      | Some (new_s, r) \<Rightarrow>
        (case get_action A ag new_s of (new_a, ag1) \<Rightarrow>
           (let rt = end_return P (plan_algo self) ag1 new_s new_a r
            in Inr (update_agent A ag1 rt s a))))"

text \<open>
  The loop \<^verbatim>\<open>for s, a in samp\<close>: the agent as the loop leaves it, and the exception if
  a step raised.
\<close>

fun Dyna_simulate_loop ::
  "('ag, 's, 'a) Agent \<Rightarrow> ('ag, 's, 'a) ReturnPolicy \<Rightarrow> ('alg, 's, 'a, 'z) Dyna_scheme \<Rightarrow>
   'ag \<Rightarrow> ('s \<times> 'a) list \<Rightarrow> 'ag \<times> error option" where
  "Dyna_simulate_loop A P self ag [] = (ag, None)"
| "Dyna_simulate_loop A P self ag ((s, a) # samp) =
     (case step_sim A P self ag s a of
        Inl e \<Rightarrow> (ag, Some e)
      | Inr ag' \<Rightarrow> Dyna_simulate_loop A P self ag' samp)"

definition Dyna_simulate ::
  "('ag, 's, 'a) Agent \<Rightarrow> ('ag, 's, 'a) ReturnPolicy \<Rightarrow> (nat \<Rightarrow> nat) \<Rightarrow>
   ('alg, 's, 'a, 'z) Dyna_scheme \<Rightarrow> 'ag \<Rightarrow> 'ag \<times> error option" where
  "Dyna_simulate A P rnd self ag =
     (case random_choices rnd (map fst (model self)) (nsim self) of
        Inl e \<Rightarrow> (ag, Some e)
      | Inr samp \<Rightarrow> Dyna_simulate_loop A P self ag samp)"

text \<open>
  \<^verbatim>\<open>Dyna.__call__\<close>, with the object and the agent as the call leaves them.  \<open>rnd\<close> is
  the random generator as this call sees it.
\<close>

definition Dyna_call ::
  "('ag, 's, 'a) Agent \<Rightarrow> ('ag, 's, 'a) ReturnPolicy \<Rightarrow> ('alg, 'ag, 's, 'a) algo_call \<Rightarrow>
   (nat \<Rightarrow> nat) \<Rightarrow> ('alg, 's, 'a) Dyna \<Rightarrow> 'ag \<Rightarrow>
   's \<Rightarrow> 'a \<Rightarrow> real \<Rightarrow> 's \<Rightarrow> 'a \<Rightarrow> int \<Rightarrow> bool \<Rightarrow>
   (('alg, 's, 'a) Dyna \<times> 'ag) \<times> (error + ('s, 'a) Command)" where
  "Dyna_call A P algo_call rnd self ag s a r new_s new_a t is_terminal =
     (case (if \<not> is_terminal
            then (let self1 = Dyna_update self s a new_s new_a r
                  in case Dyna_simulate A P rnd self1 ag of (ag1, err) \<Rightarrow> (self1, ag1, err))
            else (self, ag, None)) of
        (self1, ag1, Some e) \<Rightarrow> ((self1, ag1), Inl e)
      | (self1, ag1, None) \<Rightarrow>
          (case algo_call (algo self1) ag1 s a r new_s new_a t is_terminal of
             ((alg', ag2), res) \<Rightarrow> ((self1\<lparr>algo := alg'\<rparr>, ag2), res)))"

subsection \<open>PrioritizedSweep\<close>

record ('alg, 's, 'a) PrioritizedSweep = "('alg, 's, 'a) Dyna" +
  theta :: real
  pq :: "('s \<times> 'a) list"
  rev_model :: "('s, ('s \<times> 'a) list) dict"

definition PrioritizedSweep_init ::
  "'alg \<Rightarrow> ('s, 'a) NStepAlgo \<Rightarrow> nat \<Rightarrow> real \<Rightarrow> ('alg, 's, 'a) PrioritizedSweep" where
  "PrioritizedSweep_init al pl n th =
     \<lparr>algo = al, plan_algo = pl, nsim = n, model = [], theta = th, pq = [], rev_model = []\<rparr>"

definition update_pq ::
  "('ag, 's, 'a) Agent \<Rightarrow> ('ag, 's, 'a) ReturnPolicy \<Rightarrow> ('alg, 's, 'a) PrioritizedSweep \<Rightarrow>
   'ag \<Rightarrow> 's \<Rightarrow> 'a \<Rightarrow> 's \<Rightarrow> 'a \<Rightarrow> real \<Rightarrow> ('alg, 's, 'a) PrioritizedSweep" where
  "update_pq A P self ag s a new_s new_a r =
     (let rt = end_return P (plan_algo self) ag new_s new_a r
      in if \<bar>rt - q A ag s a\<bar> > theta self
         then self\<lparr>pq := heappush (pq self) (s, a)\<rparr>
         else self)"

text \<open>
  \<^verbatim>\<open>PrioritizedSweep.update\<close>.  Only the removal of the stale predecessor can raise,
  and it comes before anything is changed.
\<close>

definition PrioritizedSweep_update ::
  "('ag, 's, 'a) Agent \<Rightarrow> ('ag, 's, 'a) ReturnPolicy \<Rightarrow> ('alg, 's, 'a) PrioritizedSweep \<Rightarrow>
   'ag \<Rightarrow> 's \<Rightarrow> 'a \<Rightarrow> 's \<Rightarrow> 'a \<Rightarrow> real \<Rightarrow> error + ('alg, 's, 'a) PrioritizedSweep" where
  "PrioritizedSweep_update A P self ag s a new_s new_a r =
     (case (case map_of (model self) (s, a) of
              None \<Rightarrow> Inr self
            | Some (old_new_s, _) \<Rightarrow>
              (case map_of (rev_model self) old_new_s of
                 None \<Rightarrow> Inl KeyError
               | Some preds \<Rightarrow>
                 (case set_remove preds (s, a) of
                    Inl e \<Rightarrow> Inl e
                  | Inr preds' \<Rightarrow>
                      Inr (self\<lparr>rev_model := AList.update old_new_s preds' (rev_model self)\<rparr>)))) of
        Inl e \<Rightarrow> Inl e
      | Inr self1 \<Rightarrow>
        (let self2 = (case map_of (rev_model self1) new_s of
                        None \<Rightarrow> self1\<lparr>rev_model := AList.update new_s [(s, a)] (rev_model self1)\<rparr>
                      | Some preds \<Rightarrow>
                          self1\<lparr>rev_model := AList.update new_s (set_add preds (s, a)) (rev_model self1)\<rparr>);
             self3 = update_pq A P self2 ag s a new_s new_a r
         in Inr (Dyna_update self3 s a new_s new_a r)))"

text \<open>
  The inner loop \<^verbatim>\<open>for prev_s, prev_a in self.rev_model[s]\<close> of \<^verbatim>\<open>simulate\<close>, after the
  pair \<open>(s, a)\<close> was popped and replayed.
\<close>

fun sweep_predecessors ::
  "('ag, 's, 'a) Agent \<Rightarrow> ('ag, 's, 'a) ReturnPolicy \<Rightarrow> ('alg, 's, 'a) PrioritizedSweep \<Rightarrow>
   'ag \<Rightarrow> 's \<Rightarrow> 'a \<Rightarrow> ('s \<times> 'a) list \<Rightarrow> ('alg, 's, 'a) PrioritizedSweep \<times> error option" where
  "sweep_predecessors A P self ag s a [] = (self, None)"
| "sweep_predecessors A P self ag s a ((prev_s, prev_a) # preds) =
     (case map_of (model self) (prev_s, prev_a) of
        None \<Rightarrow> (self, Some KeyError)
      | Some (_, r) \<Rightarrow>
          sweep_predecessors A P (update_pq A P self ag prev_s prev_a s a r) ag s a preds)"

text \<open>
  The body of \<^verbatim>\<open>for _ in range(self.nsim)\<close> after the emptiness test: pop, replay,
  sweep the predecessors.
\<close>

definition simulate_body ::
  "('ag, 's, 'a) Agent \<Rightarrow> ('ag, 's, 'a) ReturnPolicy \<Rightarrow>
   ('alg, 's::linorder, 'a::linorder) PrioritizedSweep \<Rightarrow> 'ag \<Rightarrow>
   (('alg, 's, 'a) PrioritizedSweep \<times> 'ag) \<times> error option" where
  "simulate_body A P self ag =
     (case heappop (pq self) of
        Inl e \<Rightarrow> ((self, ag), Some e)
      | Inr ((s, a), h) \<Rightarrow>
        (let self1 = self\<lparr>pq := h\<rparr> in
         case step_sim A P self1 ag s a of
           Inl e \<Rightarrow> ((self1, ag), Some e)
         | Inr ag1 \<Rightarrow>
           (case map_of (rev_model self1) s of
              None \<Rightarrow> ((self1, ag1), None)
            | Some preds \<Rightarrow>
              (case sweep_predecessors A P self1 ag1 s a preds of
                 (self2, err) \<Rightarrow> ((self2, ag1), err)))))"

fun PrioritizedSweep_simulate_loop ::
  "('ag, 's, 'a) Agent \<Rightarrow> ('ag, 's, 'a) ReturnPolicy \<Rightarrow> nat \<Rightarrow>
   ('alg, 's::linorder, 'a::linorder) PrioritizedSweep \<Rightarrow> 'ag \<Rightarrow>
   (('alg, 's, 'a) PrioritizedSweep \<times> 'ag) \<times> error option" where
  "PrioritizedSweep_simulate_loop A P 0 self ag = ((self, ag), None)"
| "PrioritizedSweep_simulate_loop A P (Suc n) self ag =
     (if pq self = [] then ((self, ag), None)
      else
        (case simulate_body A P self ag of
           ((self', ag'), Some e) \<Rightarrow> ((self', ag'), Some e)
         | ((self', ag'), None) \<Rightarrow> PrioritizedSweep_simulate_loop A P n self' ag'))"

definition PrioritizedSweep_simulate ::
  "('ag, 's, 'a) Agent \<Rightarrow> ('ag, 's, 'a) ReturnPolicy \<Rightarrow>
   ('alg, 's::linorder, 'a::linorder) PrioritizedSweep \<Rightarrow> 'ag \<Rightarrow>
   (('alg, 's, 'a) PrioritizedSweep \<times> 'ag) \<times> error option" where
  "PrioritizedSweep_simulate A P self ag = PrioritizedSweep_simulate_loop A P (nsim self) self ag"

text \<open>
  \<^verbatim>\<open>Dyna.__call__\<close> on a \<open>PrioritizedSweep\<close> object, where \<^verbatim>\<open>self.update\<close> and
  \<^verbatim>\<open>self.simulate\<close> are the overriding methods.
\<close>

definition PrioritizedSweep_call ::
  "('ag, 's, 'a) Agent \<Rightarrow> ('ag, 's, 'a) ReturnPolicy \<Rightarrow> ('alg, 'ag, 's, 'a) algo_call \<Rightarrow>
   ('alg, 's::linorder, 'a::linorder) PrioritizedSweep \<Rightarrow> 'ag \<Rightarrow>
   's \<Rightarrow> 'a \<Rightarrow> real \<Rightarrow> 's \<Rightarrow> 'a \<Rightarrow> int \<Rightarrow> bool \<Rightarrow>
   (('alg, 's, 'a) PrioritizedSweep \<times> 'ag) \<times> (error + ('s, 'a) Command)" where
  "PrioritizedSweep_call A P algo_call self ag s a r new_s new_a t is_terminal =
     (case (if \<not> is_terminal
            then (case PrioritizedSweep_update A P self ag s a new_s new_a r of
                    Inl e \<Rightarrow> ((self, ag), Some e)
                  | Inr self1 \<Rightarrow> PrioritizedSweep_simulate A P self1 ag)
            else ((self, ag), None)) of
        ((self1, ag1), Some e) \<Rightarrow> ((self1, ag1), Inl e)
      | ((self1, ag1), None) \<Rightarrow>
          (case algo_call (algo self1) ag1 s a r new_s new_a t is_terminal of
             ((alg', ag2), res) \<Rightarrow> ((self1\<lparr>algo := alg'\<rparr>, ag2), res)))"

subsection \<open>ExploreBonus\<close>







subsection \<open>Drivers and specification-level definitions\<close>

text \<open>
  One call as a tuple: the agent state the call is made with, then
  \<open>(s, a, r, new_s, new_a, t, is_terminal)\<close>.
\<close>

type_synonym ('ag, 's, 'a) call = "'ag \<times> 's \<times> 'a \<times> real \<times> 's \<times> 'a \<times> int \<times> bool"

definition call_t :: "('ag, 's, 'a) call \<Rightarrow> int" where
  "call_t c = (case c of (ag, s, a, r, new_s, new_a, t, is_terminal) \<Rightarrow> t)"

definition call_is_terminal :: "('ag, 's, 'a) call \<Rightarrow> bool" where
  "call_is_terminal c = (case c of (ag, s, a, r, new_s, new_a, t, is_terminal) \<Rightarrow> is_terminal)"

text \<open>The object after a sequence of calls, whatever each call returned or raised.\<close>

fun NStepAlgo_calls ::
  "('ag, 's, 'a) ReturnPolicy \<Rightarrow> ('s, 'a) NStepAlgo \<Rightarrow> ('ag, 's, 'a) call list \<Rightarrow>
   ('s, 'a) NStepAlgo" where
  "NStepAlgo_calls P self [] = self"
| "NStepAlgo_calls P self ((ag, s, a, r, new_s, new_a, t, is_terminal) # cs) =
     NStepAlgo_calls P (fst (NStepAlgo_call P self ag s a r new_s new_a t is_terminal)) cs"

text \<open>
  The backward return computation in the words of the specification: with
  \<open>end_t = min (t + 1) T_step\<close>, seed the return with the policy's \<open>terminalReturn\<close> of the
  slot at \<open>end_t\<close>, then for \<open>i\<close> from \<open>end_t - 1\<close> down to \<open>tgt_t + 1\<close> replace it by the
  policy's \<open>stepReturn\<close> of the slot at \<open>i\<close> and the return so far.  There is no return
  (\<open>None\<close>) when one of these slots holds no transition.
\<close>

definition spec_step ::
  "('ag, 's, 'a) ReturnPolicy \<Rightarrow> ('s, 'a) NStepAlgo \<Rightarrow> 'ag \<Rightarrow> ('s, 'a) slot Buffer \<Rightarrow>
   real option \<Rightarrow> int \<Rightarrow> real option" where
  "spec_step P self ag b ret i =
     (case ret of
        None \<Rightarrow> None
      | Some rt \<Rightarrow>
          (case Buffer_get b i of
             None \<Rightarrow> None
           | Some (s, a, r) \<Rightarrow> Some (step_return P self ag s a r rt)))"

definition backward_return_spec ::
  "('ag, 's, 'a) ReturnPolicy \<Rightarrow> ('s, 'a) NStepAlgo \<Rightarrow> 'ag \<Rightarrow> ('s, 'a) slot Buffer \<Rightarrow>
   tstep \<Rightarrow> int \<Rightarrow> int \<Rightarrow> real option" where
  "backward_return_spec P self ag b T t tgt_t =
     (let end_t = (case T of NpInf \<Rightarrow> t + 1 | Fin k \<Rightarrow> min (t + 1) k)
      in foldl (spec_step P self ag b)
               (case Buffer_get b end_t of
                  None \<Rightarrow> None
                | Some (s, a, r) \<Rightarrow> Some (end_return P self ag s a r))
               (rev [tgt_t + 1 .. end_t - 1]))"

text \<open>A tabular agent for the concrete scenarios: its state is the table of values.\<close>

definition table_agent :: "real \<Rightarrow> (nat \<times> nat \<Rightarrow> real, nat, nat) Agent" where
  "table_agent alpha =
     \<lparr>q = (\<lambda>tab s a. tab (s, a)),
      best_action = (\<lambda>tab s. 0),
      best_action_val = (\<lambda>tab s. tab (s, 0)),
      action_prob = (\<lambda>tab s a. if a = 0 then 1 else 0),
      action_spec = (\<lambda>tab s. [0]),
      get_action = (\<lambda>tab s. (0, tab)),
      update_agent = (\<lambda>tab rt s a. tab((s, a) := tab (s, a) + alpha * (rt - tab (s, a))))\<rparr>"

text \<open>The value table of the end-to-end scenario: \<open>Q(1, 0) = 2\<close>, zero elsewhere.\<close>

definition scenario_table :: "nat \<times> nat \<Rightarrow> real" where
  "scenario_table = (\<lambda>p. 0)((1, 0) := 2)"

text \<open>
  The object as lines 56 to 60 of \<^verbatim>\<open>__call__\<close> leave it, when it held the buffer \<open>b0\<close>
  and the horizon \<open>T0\<close>: the horizon is set at the first terminal flag, and the
  transition is stored unless the call is past the horizon.
\<close>

definition after_store ::
  "('s, 'a) NStepAlgo \<Rightarrow> ('s, 'a) slot Buffer \<Rightarrow> tstep \<Rightarrow> real \<Rightarrow> 's \<Rightarrow> 'a \<Rightarrow> int \<Rightarrow> bool \<Rightarrow>
   ('s, 'a) NStepAlgo" where
  "after_store self b0 T0 r new_s new_a t is_terminal =
     (let self1 = (if T0 = NpInf \<and> is_terminal then self\<lparr>T_step := Some (Fin (t + 1))\<rparr> else self)
      in if lt_tstep t (if T0 = NpInf \<and> is_terminal then Fin (t + 1) else T0)
         then self1\<lparr>buffer := Some (Buffer_set b0 (t + 1) (Some (new_s, new_a, r)))\<rparr>
         else self1)"

text \<open>Lines 62 to 70 of \<^verbatim>\<open>__call__\<close> on that object.\<close>

definition Command_of ::
  "('ag, 's, 'a) ReturnPolicy \<Rightarrow> ('s, 'a) NStepAlgo \<Rightarrow> 'ag \<Rightarrow> int \<Rightarrow> error + ('s, 'a) Command" where
  "Command_of P self' ag t =
     (let tgt_t = t - int (nstep self') + 1
      in if tgt_t < 0 then Inr NoUpdate
         else (case get_return P self' ag t tgt_t of
                  Inl e \<Rightarrow> Inl e
                | Inr rt \<Rightarrow> Inr (Command rt (map_option fst (Buffer_get (the (buffer self')) tgt_t))
                                  (map_option (fst \<circ> snd) (Buffer_get (the (buffer self')) tgt_t))
                                  (ge_tstep_minus_1 tgt_t (the (T_step self'))))))"

text \<open>The return value a call handed out, if it handed one out.\<close>

fun returned :: "error + ('s, 'a) Command \<Rightarrow> real option" where
  "returned (Inr (Command rt tgt_s tgt_a tm)) = Some rt"
| "returned (Inr NoUpdate) = None"
| "returned (Inl e) = None"

text \<open>
  The discounted sum of the rewards buffered at the steps \<open>lo\<close> to \<open>hi\<close>, the first of
  them undiscounted.
\<close>

definition slot_reward :: "('s, 'a) slot \<Rightarrow> real" where
  "slot_reward sl = (case sl of None \<Rightarrow> 0 | Some (s, a, r) \<Rightarrow> r)"

definition discounted_rewards :: "real \<Rightarrow> ('s, 'a) slot Buffer \<Rightarrow> int \<Rightarrow> int \<Rightarrow> real" where
  "discounted_rewards g b lo hi =
     (\<Sum>i\<leftarrow>[lo .. hi]. g ^ nat (i - lo) * slot_reward (Buffer_get b i))"

text \<open>
  Concrete runs with \<open>gamma = 0.9\<close> and the scenario's agent.  \<open>ended_episode\<close> is the
  object after the single-step episode of the scenario.
\<close>

definition ended_episode :: "(nat, nat) NStepAlgo" where
  "ended_episode =
     NStepAlgo_calls (Sarsa (table_agent 1)) (init_episode (NStepAlgo_init 0.9 1) 0 0)
       [(scenario_table, 0, 0, 1, 1, 0, 0, True)]"

text \<open>
  \<open>two_step_run\<close> is a two-step episode with \<open>nstep = 2\<close>: the object after
  \<open>init_episode(0, 0)\<close> and the call \<open>(s = 0, a = 0, r = 1, new_s = 1, new_a = 1, t = 0)\<close>;
  \<open>two_step_end P\<close> is the terminal call \<open>(s = 1, a = 1, r = 1, new_s = 2, new_a = 0, t = 1)\<close>
  on it.
\<close>

definition two_step_run ::
  "(nat \<times> nat \<Rightarrow> real, nat, nat) ReturnPolicy \<Rightarrow> (nat, nat) NStepAlgo" where
  "two_step_run P =
     NStepAlgo_calls P (init_episode (NStepAlgo_init 0.9 2) 0 0)
       [(scenario_table, 0, 0, 1, 1, 1, 0, False)]"

definition two_step_end ::
  "(nat \<times> nat \<Rightarrow> real, nat, nat) ReturnPolicy \<Rightarrow>
   (nat, nat) NStepAlgo \<times> (error + (nat, nat) Command)" where
  "two_step_end P = NStepAlgo_call P (two_step_run P) scenario_table 1 1 1 2 0 1 True"

text \<open>
  \<open>flush_run\<close> is the same two-step episode with \<open>nstep = 3\<close>, after its terminal call;
  \<open>flush_call P\<close> is the call at \<open>t = 2\<close> that follows, the first one with a target step.
\<close>

definition flush_run ::
  "(nat \<times> nat \<Rightarrow> real, nat, nat) ReturnPolicy \<Rightarrow> (nat, nat) NStepAlgo" where
  "flush_run P =
     NStepAlgo_calls P (init_episode (NStepAlgo_init 0.9 3) 0 0)
       [(scenario_table, 0, 0, 1, 1, 1, 0, False), (scenario_table, 1, 1, 1, 2, 0, 1, True)]"

definition flush_call ::
  "(nat \<times> nat \<Rightarrow> real, nat, nat) ReturnPolicy \<Rightarrow>
   (nat, nat) NStepAlgo \<times> (error + (nat, nat) Command)" where
  "flush_call P = NStepAlgo_call P (flush_run P) scenario_table 2 0 0 2 0 2 False"



text \<open>
  \<^verbatim>\<open>Dyna.init_episode\<close>; the inner rule's \<^verbatim>\<open>init_episode\<close> is the parameter
  \<open>algo_init_episode\<close>.
\<close>

definition Dyna_init_episode ::
  "('alg \<Rightarrow> 's \<Rightarrow> 'a \<Rightarrow> 'alg) \<Rightarrow> ('alg, 's, 'a, 'z) Dyna_scheme \<Rightarrow> 's \<Rightarrow> 'a \<Rightarrow>
   ('alg, 's, 'a, 'z) Dyna_scheme" where
  "Dyna_init_episode algo_init_episode self s a =
     self\<lparr>algo := algo_init_episode (algo self) s a,
          plan_algo := init_episode (plan_algo self) s a\<rparr>"

text \<open>
  What is done to a \<open>Dyna\<close> object: the start of an episode, or a call with the random
  generator as the call sees it and the transition \<open>(s, a, r, new_s, new_a, t, is_terminal)\<close>.
\<close>

datatype ('s, 'a) event =
  InitEpisode 's 'a
| Call "nat \<Rightarrow> nat" 's 'a real 's 'a int bool

text \<open>The object and the agent after a sequence of events, whatever each call returned or raised.\<close>

fun Dyna_run ::
  "('ag, 's, 'a) Agent \<Rightarrow> ('ag, 's, 'a) ReturnPolicy \<Rightarrow> ('alg, 'ag, 's, 'a) algo_call \<Rightarrow>
   ('alg \<Rightarrow> 's \<Rightarrow> 'a \<Rightarrow> 'alg) \<Rightarrow> ('alg, 's, 'a) Dyna \<times> 'ag \<Rightarrow> ('s, 'a) event list \<Rightarrow>
   ('alg, 's, 'a) Dyna \<times> 'ag" where
  "Dyna_run A P algo_call algo_init_episode st [] = st"
| "Dyna_run A P algo_call algo_init_episode (self, ag) (InitEpisode s a # es) =
     Dyna_run A P algo_call algo_init_episode (Dyna_init_episode algo_init_episode self s a, ag) es"
| "Dyna_run A P algo_call algo_init_episode (self, ag) (Call rnd s a r new_s new_a t is_terminal # es) =
     Dyna_run A P algo_call algo_init_episode
       (fst (Dyna_call A P algo_call rnd self ag s a r new_s new_a t is_terminal)) es"

text \<open>The pairs \<open>(s, a)\<close> of the real transitions among the events that were not terminal.\<close>

fun observed :: "('s, 'a) event list \<Rightarrow> ('s \<times> 'a) set" where
  "observed [] = {}"
| "observed (InitEpisode s a # es) = observed es"
| "observed (Call rnd s a r new_s new_a t is_terminal # es) =
     (if is_terminal then observed es else insert (s, a) (observed es))"

text \<open>
  A concrete \<open>Dyna\<close>: one-step Sarsa inside and for planning, \<open>nsim = 2\<close>, a tabular agent
  with step size \<open>1/2\<close> and all values 0, after the start of an episode and the real
  transition \<open>(s = 0, a = 0, r = 1, new_s = 1, new_a = 0, t = 0)\<close>.
\<close>

definition dyna_events :: "(nat, nat) event list" where
  "dyna_events = [InitEpisode 0 0, Call (\<lambda>i. i) 0 0 1 1 0 0 False]"

definition dyna_demo ::
  "((nat, nat) NStepAlgo, nat, nat) Dyna \<times> (nat \<times> nat \<Rightarrow> real)" where
  "dyna_demo =
     Dyna_run (table_agent (1/2)) (Sarsa (table_agent (1/2)))
       (NStepAlgo_as_algo (Sarsa (table_agent (1/2)))) init_episode
       (Dyna_init (NStepAlgo_init 0.9 1) (NStepAlgo_init 0.9 1) 2, \<lambda>p. 0) dyna_events"

text \<open>
  \<^verbatim>\<open>PrioritizedSweep.init_episode\<close> is the inherited \<open>Dyna_init_episode\<close>.  The object
  and the agent after a sequence of events, whatever each call returned or raised; the
  random generator of a \<open>Call\<close> is not used.
\<close>

fun PrioritizedSweep_run ::
  "('ag, 's, 'a) Agent \<Rightarrow> ('ag, 's, 'a) ReturnPolicy \<Rightarrow> ('alg, 'ag, 's, 'a) algo_call \<Rightarrow>
   ('alg \<Rightarrow> 's \<Rightarrow> 'a \<Rightarrow> 'alg) \<Rightarrow>
   ('alg, 's::linorder, 'a::linorder) PrioritizedSweep \<times> 'ag \<Rightarrow> ('s, 'a) event list \<Rightarrow>
   ('alg, 's, 'a) PrioritizedSweep \<times> 'ag" where
  "PrioritizedSweep_run A P algo_call algo_init_episode st [] = st"
| "PrioritizedSweep_run A P algo_call algo_init_episode (self, ag) (InitEpisode s a # es) =
     PrioritizedSweep_run A P algo_call algo_init_episode
       (Dyna_init_episode algo_init_episode self s a, ag) es"
| "PrioritizedSweep_run A P algo_call algo_init_episode (self, ag)
       (Call rnd s a r new_s new_a t is_terminal # es) =
     PrioritizedSweep_run A P algo_call algo_init_episode
       (fst (PrioritizedSweep_call A P algo_call self ag s a r new_s new_a t is_terminal)) es"

text \<open>
  In the words of the specification: the residual of \<open>(s, a)\<close> against a successor
  \<open>(new_s, new_a)\<close> and a reward is the magnitude of the difference between the one-step
  planning return and the agent's current \<open>Q(s, a)\<close>; the predecessors of a state are the
  pairs the reverse model records for it; the modeled reward of a pair is the reward the
  model holds for it.
\<close>

definition residual ::
  "('ag, 's, 'a) Agent \<Rightarrow> ('ag, 's, 'a) ReturnPolicy \<Rightarrow> ('alg, 's, 'a) PrioritizedSweep \<Rightarrow>
   'ag \<Rightarrow> 's \<Rightarrow> 'a \<Rightarrow> 's \<Rightarrow> 'a \<Rightarrow> real \<Rightarrow> real" where
  "residual A P self ag s a new_s new_a r =
     \<bar>end_return P (plan_algo self) ag new_s new_a r - q A ag s a\<bar>"

definition predecessors :: "('alg, 's, 'a) PrioritizedSweep \<Rightarrow> 's \<Rightarrow> ('s \<times> 'a) list" where
  "predecessors self s = (case map_of (rev_model self) s of None \<Rightarrow> [] | Some preds \<Rightarrow> preds)"

definition modeled_reward :: "('alg, 's, 'a) PrioritizedSweep \<Rightarrow> 's \<times> 'a \<Rightarrow> real" where
  "modeled_reward self p = (case map_of (model self) p of None \<Rightarrow> 0 | Some (new_s, r) \<Rightarrow> r)"

text \<open>
  The pairs that \<^verbatim>\<open>simulate\<close> pops and replays, in order, when its loop is run for \<open>n\<close>
  rounds.
\<close>

fun replayed ::
  "('ag, 's, 'a) Agent \<Rightarrow> ('ag, 's, 'a) ReturnPolicy \<Rightarrow> nat \<Rightarrow>
   ('alg, 's::linorder, 'a::linorder) PrioritizedSweep \<Rightarrow> 'ag \<Rightarrow> ('s \<times> 'a) list" where
  "replayed A P 0 self ag = []"
| "replayed A P (Suc n) self ag =
     (case heappop (pq self) of
        Inl e \<Rightarrow> []
      | Inr (p, h) \<Rightarrow>
          (case simulate_body A P self ag of
             ((self', ag'), Some e) \<Rightarrow> [p]
           | ((self', ag'), None) \<Rightarrow> p # replayed A P n self' ag'))"

text \<open>
  The consistency of the two models and the queue: every recorded predecessor of a
  state is a key of the model with that state as successor, every key of the model is
  recorded as a predecessor of its successor, no predecessor is recorded twice, and
  every queued pair is a key of the model.
\<close>

definition consistent :: "('alg, 's, 'a) PrioritizedSweep \<Rightarrow> bool" where
  "consistent self \<longleftrightarrow>
     (\<forall>st preds. map_of (rev_model self) st = Some preds \<longrightarrow>
        distinct preds \<and> (\<forall>p\<in>set preds. \<exists>r. map_of (model self) p = Some (st, r))) \<and>
     (\<forall>p st r. map_of (model self) p = Some (st, r) \<longrightarrow>
        (\<exists>preds. map_of (rev_model self) st = Some preds \<and> p \<in> set preds)) \<and>
     set (pq self) \<subseteq> dom (map_of (model self))"

text \<open>
  Concrete \<open>PrioritizedSweep\<close> runs: one-step Sarsa inside and for planning,
  \<open>gamma = 0.9\<close>, \<open>theta = 0.05\<close>, a tabular agent with step size 1 and all values 0, and an
  environment that alternates between the states 0 and 1 with reward 1 and the single
  action 0.  \<open>events_from s\<close> are the start of an episode in \<open>s\<close> and its three first
  transitions.
\<close>

definition sweep_run ::
  "nat \<Rightarrow> (nat, nat) event list \<Rightarrow>
   ((nat, nat) NStepAlgo, nat, nat) PrioritizedSweep \<times> (nat \<times> nat \<Rightarrow> real)" where
  "sweep_run n es =
     PrioritizedSweep_run (table_agent 1) (Sarsa (table_agent 1))
       (NStepAlgo_as_algo (Sarsa (table_agent 1))) init_episode
       (PrioritizedSweep_init (NStepAlgo_init 0.9 1) (NStepAlgo_init 0.9 1) n 0.05, \<lambda>p. 0) es"

definition events_from :: "nat \<Rightarrow> (nat, nat) event list" where
  "events_from s =
     [InitEpisode s 0,
      Call (\<lambda>i. i) s 0 1 (1 - s) 0 0 False,
      Call (\<lambda>i. i) (1 - s) 0 1 s 0 1 False,
      Call (\<lambda>i. i) s 0 1 (1 - s) 0 2 False]"

text \<open>
  The pending error of a queued pair: its residual against the successor and reward the
  model holds for it now, with the action the agent would take there.
\<close>

definition pending_residual ::
  "('ag, 's, 'a) Agent \<Rightarrow> ('ag, 's, 'a) ReturnPolicy \<Rightarrow> ('alg, 's, 'a) PrioritizedSweep \<Rightarrow>
   'ag \<Rightarrow> 's \<times> 'a \<Rightarrow> real" where
  "pending_residual A P self ag p =
     (case map_of (model self) p of
        None \<Rightarrow> 0
      | Some (new_s, r) \<Rightarrow>
          residual A P self ag (fst p) (snd p) new_s (fst (get_action A ag new_s)) r)"

text \<open>
  The states a \<open>PrioritizedSweep\<close> object goes through, between and inside its calls:
  as created, after the start of an episode, after \<^verbatim>\<open>update\<close>, after a round of the loop
  of \<^verbatim>\<open>simulate\<close>, after the inner rule was called.
\<close>

inductive sweep_state ::
  "('ag, 's, 'a) Agent \<Rightarrow> ('ag, 's, 'a) ReturnPolicy \<Rightarrow>
   ('alg, 's::linorder, 'a::linorder) PrioritizedSweep \<Rightarrow> bool"
  for A :: "('ag, 's, 'a) Agent" and P :: "('ag, 's, 'a) ReturnPolicy" where
  created: "sweep_state A P (PrioritizedSweep_init al pl n th)"
| episode: "sweep_state A P self \<Longrightarrow> sweep_state A P (Dyna_init_episode ie self s a)"
| updated: "sweep_state A P self \<Longrightarrow>
            PrioritizedSweep_update A P self ag s a new_s new_a r = Inr self' \<Longrightarrow>
            sweep_state A P self'"
| swept: "sweep_state A P self \<Longrightarrow> pq self \<noteq> [] \<Longrightarrow>
          simulate_body A P self ag = ((self', ag'), None) \<Longrightarrow> sweep_state A P self'"
| inner: "sweep_state A P self \<Longrightarrow> sweep_state A P (self\<lparr>algo := alg'\<rparr>)"

text \<open>
  \<open>after_update n s\<close> is the object inside the fourth call of the run from \<open>s\<close>, the
  transition from \<open>1 - s\<close> back to \<open>s\<close>, when \<^verbatim>\<open>update\<close> is done and \<^verbatim>\<open>simulate\<close> is about to
  start.
\<close>

definition after_update ::
  "nat \<Rightarrow> nat \<Rightarrow> ((nat, nat) NStepAlgo, nat, nat) PrioritizedSweep" where
  "after_update n s =
     (case PrioritizedSweep_update (table_agent 1) (Sarsa (table_agent 1))
             (fst (sweep_run n (events_from s))) (snd (sweep_run n (events_from s)))
             (1 - s) 0 s 0 1 of
        Inl e \<Rightarrow> fst (sweep_run n (events_from s))
      | Inr self1 \<Rightarrow> self1)"

section \<open>Properties\<close>

subsection \<open>The n-step engine\<close>

lemma spec_step_simps [simp]:
  "spec_step P self ag b None i = None"
  "spec_step P self ag b (Some rt) i =
     (case Buffer_get b i of
        None \<Rightarrow> None
      | Some (s, a, r) \<Rightarrow> Some (step_return P self ag s a r rt))"
  by (simp_all add: spec_step_def)

lemma foldl_spec_step_None: "foldl (spec_step P self ag b) None xs = None"
  by (induction xs) simp_all

lemma get_return_loop_spec:
  "get_return_loop P self ag b i tgt_t rt =
     (case foldl (spec_step P self ag b) (Some rt) (rev [tgt_t + 1 .. i]) of
        None \<Rightarrow> Inl TypeError
      | Some v \<Rightarrow> Inr v)"
proof (induction P self ag b i tgt_t rt rule: get_return_loop.induct)
  case (1 P self ag b i tgt_t rt)
  show ?case
  proof (cases "i > tgt_t")
    case False
    then show ?thesis by (simp add: get_return_loop.simps)
  next
    case True
    then have up: "[tgt_t + 1 .. i] = [tgt_t + 1 .. i - 1] @ [i]"
      by (simp add: upto_rec2)
    show ?thesis
    proof (cases "Buffer_get b i")
      case None
      with True up show ?thesis
        by (simp add: get_return_loop.simps [of P self ag b i] call_step_return_def
            foldl_spec_step_None)
    next
      case (Some sl)
      obtain s a r where sl: "sl = (s, a, r)" by (cases sl)
      have st: "call_step_return P self ag (Buffer_get b i) rt = Inr (step_return P self ag s a r rt)"
        by (simp add: call_step_return_def Some sl)
      have g: "get_return_loop P self ag b i tgt_t rt =
                 get_return_loop P self ag b (i - 1) tgt_t (step_return P self ag s a r rt)"
        using True by (simp add: get_return_loop.simps [of P self ag b i] st)
      have f: "foldl (spec_step P self ag b) (Some rt) (rev [tgt_t + 1 .. i]) =
                 foldl (spec_step P self ag b) (Some (step_return P self ag s a r rt))
                   (rev [tgt_t + 1 .. i - 1])"
        by (simp add: up Some sl)
      show ?thesis
        unfolding g f by (rule "1.IH" [OF True st])
    qed
  qed
qed

lemma min_tstep_case: "min_tstep i T = (case T of NpInf \<Rightarrow> i | Fin k \<Rightarrow> min i k)"
  by (cases T) simp_all

lemma get_return_spec:
  assumes "buffer self = Some b" and "T_step self = Some T"
  shows "get_return P self ag t tgt_t =
     (case backward_return_spec P self ag b T t tgt_t of
        None \<Rightarrow> Inl TypeError
      | Some v \<Rightarrow> Inr v)"
proof (cases "Buffer_get b (min_tstep (t + 1) T)")
  case None
  then show ?thesis
    using assms
    by (simp add: get_return_def backward_return_spec_def Let_def call_end_return_def
        min_tstep_case [symmetric] foldl_spec_step_None)
next
  case (Some sl)
  obtain s a r where sl: "sl = (s, a, r)" by (cases sl)
  show ?thesis
    using assms Some
    by (simp add: get_return_def backward_return_spec_def Let_def call_end_return_def sl
        min_tstep_case [symmetric] get_return_loop_spec)
qed

lemma T_step_call:
  "T_step (fst (NStepAlgo_call P self ag s a r new_s new_a t is_terminal)) =
     (if T_step self = Some NpInf \<and> is_terminal then Some (Fin (t + 1)) else T_step self)"
  by (simp add: NStepAlgo_call_def Let_def split: option.splits sum.splits)

lemma T_step_calls_Fin:
  "T_step self = Some (Fin k) \<Longrightarrow> T_step (NStepAlgo_calls P self cs) = Some (Fin k)"
  by (induction cs arbitrary: self) (auto simp: T_step_call)

lemma T_step_calls_NpInf:
  "T_step self = Some NpInf \<Longrightarrow>
   T_step (NStepAlgo_calls P self cs) =
     Some (case find call_is_terminal cs of None \<Rightarrow> NpInf | Some c \<Rightarrow> Fin (call_t c + 1))"
proof (induction cs arbitrary: self)
  case Nil
  then show ?case by simp
next
  case (Cons c cs)
  obtain ag s a r new_s new_a t is_terminal where c: "c = (ag, s, a, r, new_s, new_a, t, is_terminal)"
    by (cases c) auto
  show ?case
  proof (cases is_terminal)
    case True
    with Cons.prems c show ?thesis
      by (simp add: T_step_calls_Fin T_step_call call_is_terminal_def call_t_def)
  next
    case False
    with Cons.prems c Cons.IH show ?thesis
      by (simp add: T_step_call call_is_terminal_def call_t_def)
  qed
qed

text \<open>
  C2.  The single-step episode: \<open>gamma = 0.9\<close>, \<open>nstep = 1\<close>, Sarsa, an agent with
  \<open>Q(1, 0) = 2\<close>.  After \<open>init_episode(0, 0)\<close> the call with the transition
  \<open>(s = 0, a = 0, r = 1, new_s = 1, new_a = 0, t = 0, is_terminal = True)\<close> returns the
  command to update with the return \<open>1 + 0.9 * 2\<close>, credited to state 0 and action 0, with
  \<open>terminate\<close> true.
\<close>

theorem sarsa_single_step_episode:
  "q A ag (1::nat) (0::nat) = 2 \<Longrightarrow>
   snd (NStepAlgo_call (Sarsa A) (init_episode (NStepAlgo_init 0.9 1) 0 0) ag 0 0 1 1 0 0 True)
     = Inr (Command (1 + 0.9 * 2) (Some 0) (Some 0) True)"
  by (simp add: NStepAlgo_call_def init_episode_def NStepAlgo_init_def Buffer_def Buffer_set_def
      Buffer_get_def get_return_def call_end_return_def get_return_loop.simps Sarsa_def Let_def)

text \<open>C2 with the tabular agent whose table holds \<open>Q(1, 0) = 2\<close>.\<close>

theorem sarsa_single_step_episode_witness:
  "q (table_agent 1) scenario_table 1 0 = 2 \<and>
   snd (NStepAlgo_call (Sarsa (table_agent 1)) (init_episode (NStepAlgo_init 0.9 1) 0 0)
          scenario_table 0 0 1 1 0 0 True)
     = Inr (Command (1 + 0.9 * 2) (Some 0) (Some 0) True)"
proof -
  have h: "q (table_agent 1) scenario_table 1 0 = 2"
    by (simp add: table_agent_def scenario_table_def)
  from h sarsa_single_step_episode [OF h] show ?thesis by simp
qed

text \<open>
  C4.  Within one episode, that is after \<open>init_episode\<close> and any sequence of calls,
  \<open>T_step\<close> is infinite as long as no call had a true terminal flag, and otherwise it is
  \<open>t + 1\<close> for the \<open>t\<close> of the first call whose flag was true, whatever the arguments of
  the calls after it.
\<close>

theorem T_step_set_once:
  "T_step (NStepAlgo_calls P (init_episode self0 s0 a0) cs) =
     Some (case find call_is_terminal cs of
             None \<Rightarrow> NpInf
           | Some c \<Rightarrow> Fin (call_t c + 1))"
  by (rule T_step_calls_NpInf) (simp add: init_episode_def)

lemma after_store_fields:
  assumes "buffer self = Some b0" and "T_step self = Some T0"
  shows "T_step (after_store self b0 T0 r new_s new_a t is_terminal) =
           Some (if T0 = NpInf \<and> is_terminal then Fin (t + 1) else T0)"
    and "buffer (after_store self b0 T0 r new_s new_a t is_terminal) =
           Some (if lt_tstep t (if T0 = NpInf \<and> is_terminal then Fin (t + 1) else T0)
                 then Buffer_set b0 (t + 1) (Some (new_s, new_a, r)) else b0)"
    and "nstep (after_store self b0 T0 r new_s new_a t is_terminal) = nstep self"
    and "gamma (after_store self b0 T0 r new_s new_a t is_terminal) = gamma self"
  using assms by (simp_all add: after_store_def Let_def)

lemma NStepAlgo_call_eq:
  assumes "buffer self = Some b0" and "T_step self = Some T0"
  shows "NStepAlgo_call P self ag s a r new_s new_a t is_terminal =
     (after_store self b0 T0 r new_s new_a t is_terminal,
      Command_of P (after_store self b0 T0 r new_s new_a t is_terminal) ag t)"
proof (cases "T0 = NpInf \<and> is_terminal")
  case c1: True
  show ?thesis
  proof (cases "lt_tstep t (Fin (t + 1))")
    case True
    with c1 assms show ?thesis
      by (simp add: NStepAlgo_call_def after_store_def Command_of_def Let_def split: sum.split)
  next
    case False
    then show ?thesis by simp
  qed
next
  case c1: False
  show ?thesis
  proof (cases "lt_tstep t T0")
    case True
    with c1 assms show ?thesis
      by (auto simp: NStepAlgo_call_def after_store_def Command_of_def Let_def split: sum.split)
  next
    case False
    with c1 assms show ?thesis
      by (auto simp: NStepAlgo_call_def after_store_def Command_of_def Let_def split: sum.split)
  qed
qed

lemma buffer_call_None:
  "buffer self = None \<Longrightarrow>
   buffer (fst (NStepAlgo_call P self ag s a r new_s new_a t is_terminal)) = None"
  by (simp add: NStepAlgo_call_def Let_def split: option.splits sum.splits)

text \<open>
  C1.  For every call with \<open>tgt_t = t - nstep + 1 \<ge> 0\<close>, with the buffer and \<open>T_step\<close> as
  the call leaves them: the return handed out is the backward return computation of
  the specification, that is \<open>terminalReturn\<close> of the slot at \<open>end_t = min (t + 1) T_step\<close>
  folded with \<open>stepReturn\<close> over the slots \<open>end_t - 1\<close> down to \<open>tgt_t + 1\<close>; it is credited
  to the slot at \<open>tgt_t\<close> with \<open>terminate = (tgt_t \<ge> T_step - 1)\<close>.  Where one of the slots
  read holds no transition, the call raises.
\<close>

theorem backward_return_exact:
  assumes "NStepAlgo_call P self ag s a r new_s new_a t is_terminal = (self', res)"
    and "buffer self' = Some b" and "T_step self' = Some T"
    and "0 \<le> t - int (nstep self) + 1"
  shows "res =
     (case backward_return_spec P self' ag b T t (t - int (nstep self) + 1) of
        None \<Rightarrow> Inl TypeError
      | Some rt \<Rightarrow>
          Inr (Command rt (map_option fst (Buffer_get b (t - int (nstep self) + 1)))
                 (map_option (fst \<circ> snd) (Buffer_get b (t - int (nstep self) + 1)))
                 (case T of NpInf \<Rightarrow> False | Fin k \<Rightarrow> k - 1 \<le> t - int (nstep self) + 1)))"
proof -
  have fst': "self' = fst (NStepAlgo_call P self ag s a r new_s new_a t is_terminal)"
    using assms(1) by simp
  obtain b0 where b0: "buffer self = Some b0"
    using assms(2) fst' buffer_call_None [of self P ag s a r new_s new_a t is_terminal] by (cases "buffer self") auto
  obtain T0 where T0: "T_step self = Some T0"
    using assms(3) fst' by (cases "T_step self") (auto simp: T_step_call)
  have eq: "self' = after_store self b0 T0 r new_s new_a t is_terminal"
    and res: "res = Command_of P self' ag t"
    using assms(1) NStepAlgo_call_eq [OF b0 T0, of P ag s a r new_s new_a t is_terminal] by auto
  have n: "nstep self' = nstep self"
    using eq after_store_fields(3) [OF b0 T0] by simp
  have tm: "ge_tstep_minus_1 i T = (case T of NpInf \<Rightarrow> False | Fin k \<Rightarrow> k - 1 \<le> i)" for i
    by (cases T) simp_all
  show ?thesis
    using res assms(2,3,4) n
    by (simp add: Command_of_def Let_def get_return_spec [OF assms(2,3)] tm split: option.split)
qed

lemma Buffer_set_length [simp]: "length (Buffer_set b i v) = length b"
  by (simp add: Buffer_set_def)

lemma Buffer_index_less: "b \<noteq> [] \<Longrightarrow> nat (i mod int (length b)) < length b"
proof -
  assume "b \<noteq> []"
  then have "0 < int (length b)" by simp
  then have "0 \<le> i mod int (length b)" and "i mod int (length b) < int (length b)"
    by (rule pos_mod_sign, rule pos_mod_bound)
  then show ?thesis by linarith
qed

lemma Buffer_get_set_same: "b \<noteq> [] \<Longrightarrow> Buffer_get (Buffer_set b i v) i = v"
  by (simp add: Buffer_get_def Buffer_set_def Buffer_index_less)

lemma NStepAlgo_calls_invariant:
  "buffer self = Some b \<Longrightarrow> length b = nstep self + 1 \<Longrightarrow> T_step self = Some T \<Longrightarrow>
   \<exists>b' T'. buffer (NStepAlgo_calls P self cs) = Some b' \<and> length b' = nstep self + 1 \<and>
           T_step (NStepAlgo_calls P self cs) = Some T' \<and>
           nstep (NStepAlgo_calls P self cs) = nstep self \<and>
           gamma (NStepAlgo_calls P self cs) = gamma self"
proof (induction cs arbitrary: self b T)
  case Nil
  then show ?case by simp
next
  case (Cons c cs)
  obtain ag s a r new_s new_a t is_terminal where c: "c = (ag, s, a, r, new_s, new_a, t, is_terminal)"
    by (cases c) auto
  let ?self1 = "after_store self b T r new_s new_a t is_terminal"
  have f: "fst (NStepAlgo_call P self ag s a r new_s new_a t is_terminal) = ?self1"
    by (simp add: NStepAlgo_call_eq [OF Cons.prems(1,3)])
  note flds = after_store_fields [OF Cons.prems(1,3), of r new_s new_a t is_terminal]
  have "\<exists>b' T'. buffer (NStepAlgo_calls P ?self1 cs) = Some b' \<and> length b' = nstep ?self1 + 1 \<and>
           T_step (NStepAlgo_calls P ?self1 cs) = Some T' \<and>
           nstep (NStepAlgo_calls P ?self1 cs) = nstep ?self1 \<and>
           gamma (NStepAlgo_calls P ?self1 cs) = gamma ?self1"
    by (rule Cons.IH [OF flds(2) _ flds(1)]) (simp add: flds(3) Cons.prems(2))
  then show ?case
    by (simp add: c f flds(3,4))
qed

lemma init_episode_invariant:
  "buffer (init_episode self0 s0 a0) = Some (Buffer_set (Buffer (nstep self0 + 1) None) 0 (Some (s0, a0, 0)))"
  "T_step (init_episode self0 s0 a0) = Some NpInf"
  "nstep (init_episode self0 s0 a0) = nstep self0"
  "gamma (init_episode self0 s0 a0) = gamma self0"
  by (simp_all add: init_episode_def)

lemma episode_invariant:
  "\<exists>b T. buffer (NStepAlgo_calls P (init_episode self0 s0 a0) cs) = Some b \<and>
         length b = nstep self0 + 1 \<and>
         T_step (NStepAlgo_calls P (init_episode self0 s0 a0) cs) = Some T \<and>
         nstep (NStepAlgo_calls P (init_episode self0 s0 a0) cs) = nstep self0 \<and>
         gamma (NStepAlgo_calls P (init_episode self0 s0 a0) cs) = gamma self0"
  using NStepAlgo_calls_invariant [OF init_episode_invariant(1) _ init_episode_invariant(2),
      of self0 s0 a0 P cs]
  by (simp add: init_episode_invariant(3,4) Buffer_def)

lemma get_return_loop_empty: "i \<le> tgt_t \<Longrightarrow> get_return_loop P self ag b i tgt_t rt = Inr rt"
  by (simp add: get_return_loop.simps)

lemma min_tstep_le: "min_tstep i T \<le> i"
  by (cases T) simp_all

lemma min_tstep_lt: "lt_tstep t T \<Longrightarrow> min_tstep (t + 1) T = t + 1"
  by (cases T) simp_all

text \<open>
  For \<open>nstep = 1\<close> and any call with \<open>t \<ge> 0\<close> in an episode the loop does nothing and the
  return is \<open>terminalReturn\<close> of the slot at \<open>min (t + 1) T_step\<close>, which is the slot of
  this transition when \<open>t < T_step\<close>.
\<close>

lemma nstep1_return:
  assumes "nstep self0 = 1"
    and "self = NStepAlgo_calls P (init_episode self0 s0 a0) cs"
    and "0 \<le> t"
    and "NStepAlgo_call P self ag s a r new_s new_a t is_terminal = (self', res)"
  shows "\<exists>b T. buffer self' = Some b \<and> T_step self' = Some T \<and>
      (\<forall>rt. get_return_loop P self' ag b (min_tstep (t + 1) T - 1) t rt = Inr rt) \<and>
      get_return P self' ag t t = call_end_return P self' ag (Buffer_get b (min_tstep (t + 1) T)) \<and>
      res = (case call_end_return P self' ag (Buffer_get b (min_tstep (t + 1) T)) of
               Inl e \<Rightarrow> Inl e
             | Inr rt \<Rightarrow> Inr (Command rt (map_option fst (Buffer_get b t))
                                (map_option (fst \<circ> snd) (Buffer_get b t))
                                (ge_tstep_minus_1 t T))) \<and>
      (lt_tstep t T \<longrightarrow>
         Buffer_get b (min_tstep (t + 1) T) = Some (new_s, new_a, r) \<and>
         returned res = Some (end_return P self' ag new_s new_a r))"
proof -
  obtain b0 T0 where b0: "buffer self = Some b0" and len: "length b0 = 2"
    and T0: "T_step self = Some T0" and n: "nstep self = 1"
    using episode_invariant [of P self0 s0 a0 cs] assms(1,2) by auto
  define T where "T = (if T0 = NpInf \<and> is_terminal then Fin (t + 1) else T0)"
  define b where "b = (if lt_tstep t T then Buffer_set b0 (t + 1) (Some (new_s, new_a, r)) else b0)"
  have eq: "self' = after_store self b0 T0 r new_s new_a t is_terminal"
    and res: "res = Command_of P self' ag t"
    using assms(4) NStepAlgo_call_eq [OF b0 T0, of P ag s a r new_s new_a t is_terminal] by auto
  note flds = after_store_fields [OF b0 T0, of r new_s new_a t is_terminal, folded eq]
  have b: "buffer self' = Some b" and T: "T_step self' = Some T" and n': "nstep self' = 1"
    using flds n by (simp_all add: b_def T_def)
  have loop: "get_return_loop P self' ag b (min_tstep (t + 1) T - 1) t rt = Inr rt" for rt
    using min_tstep_le [of "t + 1" T] by (intro get_return_loop_empty) simp
  have gr: "get_return P self' ag t t =
              call_end_return P self' ag (Buffer_get b (min_tstep (t + 1) T))"
    unfolding get_return_def using b T loop by (simp add: Let_def split: sum.split)
  have r1: "res = (case call_end_return P self' ag (Buffer_get b (min_tstep (t + 1) T)) of
               Inl e \<Rightarrow> Inl e
             | Inr rt \<Rightarrow> Inr (Command rt (map_option fst (Buffer_get b t))
                                (map_option (fst \<circ> snd) (Buffer_get b t))
                                (ge_tstep_minus_1 t T)))"
    using res assms(3) n' b T gr by (simp add: Command_of_def Let_def split: sum.split)
  have slot: "Buffer_get b (min_tstep (t + 1) T) = Some (new_s, new_a, r)" if "lt_tstep t T"
  proof -
    have "b0 \<noteq> []" using len by auto
    then show ?thesis using that
      by (simp add: min_tstep_lt [OF that] b_def Buffer_get_set_same)
  qed
  have r2: "returned res = Some (end_return P self' ag new_s new_a r)" if "lt_tstep t T"
    using r1 slot [OF that] by (simp add: call_end_return_def)
  show ?thesis
    using b T loop gr r1 slot r2 by blast
qed

lemmas eval_defs = NStepAlgo_call_def init_episode_def NStepAlgo_init_def Buffer_def Buffer_set_def
      Buffer_get_def get_return_def call_end_return_def call_step_return_def get_return_loop.simps
      Let_def table_agent_def scenario_table_def eval_nat_numeral

lemma ended_episode_eq:
  "ended_episode = \<lparr>gamma = 0.9, nstep = 1, buffer = Some [Some (0, 0, 0), Some (1, 0, 1)],
                     T_step = Some (Fin 1)\<rparr>"
  by (simp add: ended_episode_def eval_defs Sarsa_def)

lemma two_step_run_eq:
  "two_step_run P = \<lparr>gamma = 0.9, nstep = 2,
       buffer = Some [Some (0, 0, 0), Some (1, 1, 1), None], T_step = Some NpInf\<rparr>"
  by (simp add: two_step_run_def eval_defs)

lemma two_step_end_Sarsa:
  "two_step_end (Sarsa (table_agent 1)) =
     (\<lparr>gamma = 0.9, nstep = 2,
       buffer = Some [Some (0, 0, 0), Some (1, 1, 1), Some (2, 0, 1)], T_step = Some (Fin 2)\<rparr>,
      Inr (Command (1 + 0.9 * 1) (Some 0) (Some 0) False))"
  by (simp add: two_step_end_def two_step_run_eq eval_defs Sarsa_def)

lemma two_step_end_TreeLearn:
  "two_step_end (TreeLearn (table_agent 1)) =
     (\<lparr>gamma = 0.9, nstep = 2,
       buffer = Some [Some (0, 0, 0), Some (1, 1, 1), Some (2, 0, 1)], T_step = Some (Fin 2)\<rparr>,
      Inr (Command (1 + 0.9 * 2) (Some 0) (Some 0) False))"
  by (simp add: two_step_end_def two_step_run_eq eval_defs TreeLearn_def)

lemma discounted_rewards_empty [simp]: "hi < lo \<Longrightarrow> discounted_rewards g b lo hi = 0"
  by (simp add: discounted_rewards_def)

lemma discounted_rewards_last:
  "lo \<le> hi \<Longrightarrow> discounted_rewards g b lo hi =
     discounted_rewards g b lo (hi - 1) + g ^ nat (hi - lo) * slot_reward (Buffer_get b hi)"
  by (simp add: discounted_rewards_def upto_rec2)

lemma get_return_loop_discounted:
  assumes "\<And>ag s a r rt. step_return P self ag s a r rt = r + gamma self * rt"
    and "\<forall>j\<in>{tgt_t + 1 .. i}. Buffer_get b j \<noteq> None"
    and "tgt_t \<le> i"
  shows "get_return_loop P self ag b i tgt_t rt =
     Inr (discounted_rewards (gamma self) b (tgt_t + 1) i + gamma self ^ nat (i - tgt_t) * rt)"
  using assms
proof (induction P self ag b i tgt_t rt rule: get_return_loop.induct)
  case (1 P self ag b i tgt_t rt)
  show ?case
  proof (cases "i > tgt_t")
    case False
    with "1.prems"(3) have "i = tgt_t" by simp
    then show ?thesis by (simp add: get_return_loop.simps)
  next
    case True
    have "Buffer_get b i \<noteq> None"
      using bspec [OF "1.prems"(2), of i] True by simp
    then obtain s a r where sl: "Buffer_get b i = Some (s, a, r)"
      by (cases "Buffer_get b i") auto
    have st: "call_step_return P self ag (Buffer_get b i) rt = Inr (r + gamma self * rt)"
      by (simp add: call_step_return_def sl "1.prems"(1))
    have IH: "get_return_loop P self ag b (i - 1) tgt_t (r + gamma self * rt) =
       Inr (discounted_rewards (gamma self) b (tgt_t + 1) (i - 1) +
            gamma self ^ nat (i - 1 - tgt_t) * (r + gamma self * rt))"
      using "1.prems"(2) True by (intro "1.IH" [OF True st "1.prems"(1)]) auto
    have pw: "nat (i - tgt_t) = Suc (nat (i - 1 - tgt_t))"
      using True by simp
    have ex: "nat (i - (tgt_t + 1)) = nat (i - 1 - tgt_t)" by simp
    have g: "get_return_loop P self ag b i tgt_t rt =
         get_return_loop P self ag b (i - 1) tgt_t (r + gamma self * rt)"
      using True by (simp add: get_return_loop.simps [of P self ag b i] st)
    have d: "discounted_rewards (gamma self) b (tgt_t + 1) i =
         discounted_rewards (gamma self) b (tgt_t + 1) (i - 1) + gamma self ^ nat (i - 1 - tgt_t) * r"
      using True by (simp add: discounted_rewards_last [of "tgt_t + 1" i] slot_reward_def sl ex)
    show ?thesis
      unfolding g IH d pw by (simp add: algebra_simps)
  qed
qed

text \<open>
  The return of a policy whose \<open>stepReturn\<close> is \<open>r + gamma * ret\<close> and whose
  \<open>terminalReturn\<close> is \<open>r + gamma * V(s, a)\<close>, when \<open>end_t = T_step\<close>.
\<close>

lemma ended_window_return_generic:
  assumes "\<And>ag s a r rt. step_return P self ag s a r rt = r + gamma self * rt"
    and "\<And>s a r. end_return P self ag s a r = r + gamma self * V s a"
    and "buffer self = Some b" and "T_step self = Some (Fin T)"
    and "T \<le> t + 1" and "tgt_t < T"
    and "\<forall>j\<in>{tgt_t + 1 .. T}. Buffer_get b j \<noteq> None"
    and "Buffer_get b T = Some (s_T, a_T, r_T)"
  shows "get_return P self ag t tgt_t =
     Inr (discounted_rewards (gamma self) b (tgt_t + 1) T +
          gamma self ^ nat (T - tgt_t) * V s_T a_T)"
proof -
  have m: "min (t + 1) T = T" using assms(5) by simp
  have e: "call_end_return P self ag (Buffer_get b T) = Inr (r_T + gamma self * V s_T a_T)"
    by (simp add: call_end_return_def assms(8) assms(2))
  have l: "get_return_loop P self ag b (T - 1) tgt_t (r_T + gamma self * V s_T a_T) =
     Inr (discounted_rewards (gamma self) b (tgt_t + 1) (T - 1) +
          gamma self ^ nat (T - 1 - tgt_t) * (r_T + gamma self * V s_T a_T))"
    using assms(6,7) by (intro get_return_loop_discounted [OF assms(1)]) auto
  have pw: "nat (T - tgt_t) = Suc (nat (T - 1 - tgt_t))"
    using assms(6) by simp
  have ex: "nat (T - (tgt_t + 1)) = nat (T - 1 - tgt_t)" by simp
  have g: "get_return P self ag t tgt_t =
       get_return_loop P self ag b (T - 1) tgt_t (r_T + gamma self * V s_T a_T)"
    by (simp add: get_return_def assms(3,4) m e Let_def)
  have d: "discounted_rewards (gamma self) b (tgt_t + 1) T =
       discounted_rewards (gamma self) b (tgt_t + 1) (T - 1) + gamma self ^ nat (T - 1 - tgt_t) * r_T"
    using assms(6) by (simp add: discounted_rewards_last [of "tgt_t + 1" T] slot_reward_def assms(8) ex)
  show ?thesis
    unfolding g l d pw by (simp add: algebra_simps)
qed

lemma flush_run_eq:
  "flush_run P = \<lparr>gamma = 0.9, nstep = 3,
       buffer = Some [Some (0, 0, 0), Some (1, 1, 1), Some (2, 0, 1), None], T_step = Some (Fin 2)\<rparr>"
  by (simp add: flush_run_def eval_defs)

lemma flush_call_Sarsa:
  "flush_call (Sarsa (table_agent 1)) =
     (\<lparr>gamma = 0.9, nstep = 3,
       buffer = Some [Some (0, 0, 0), Some (1, 1, 1), Some (2, 0, 1), None], T_step = Some (Fin 2)\<rparr>,
      Inr (Command (1 + 0.9 * (1 + 0.9 * 0)) (Some 0) (Some 0) False))"
  by (simp add: flush_call_def flush_run_eq eval_defs Sarsa_def)

text \<open>
  C1 at the call at \<open>t = 2\<close> after the two-step episode with Sarsa and \<open>nstep = 3\<close>:
  \<open>end_t = min 3 2 = 2\<close>, the seed is \<open>1 + 0.9 * Q(2, 0) = 1\<close>, the loop runs once, at slot 1,
  and the return is \<open>1 + 0.9 * 1\<close>, credited to \<open>(0, 0)\<close>.
\<close>

theorem backward_return_exact_witness:
  "0 \<le> 2 - int (nstep (flush_run (Sarsa (table_agent 1)))) + 1 \<and>
   buffer (fst (flush_call (Sarsa (table_agent 1)))) =
     Some [Some (0, 0, 0), Some (1, 1, 1), Some (2, 0, 1), None] \<and>
   T_step (fst (flush_call (Sarsa (table_agent 1)))) = Some (Fin 2) \<and>
   backward_return_spec (Sarsa (table_agent 1)) (fst (flush_call (Sarsa (table_agent 1))))
     scenario_table [Some (0, 0, 0), Some (1, 1, 1), Some (2, 0, 1), None] (Fin 2) 2 0 =
     Some (1 + 0.9 * (1 + 0.9 * 0)) \<and>
   snd (flush_call (Sarsa (table_agent 1))) =
     Inr (Command (1 + 0.9 * (1 + 0.9 * 0)) (Some 0) (Some 0) False)"
proof -
  let ?P = "Sarsa (table_agent 1)"
  let ?b = "[Some (0, 0, 0), Some (1, 1, 1), Some (2, 0, 1), None] :: (nat, nat) slot Buffer"
  have h1: "NStepAlgo_call ?P (flush_run ?P) scenario_table 2 0 0 2 0 2 False =
              (fst (flush_call ?P), snd (flush_call ?P))"
    by (simp add: flush_call_def)
  have h2: "buffer (fst (flush_call ?P)) = Some ?b"
    by (simp add: flush_call_Sarsa)
  have h3: "T_step (fst (flush_call ?P)) = Some (Fin 2)"
    by (simp add: flush_call_Sarsa)
  have h4: "0 \<le> 2 - int (nstep (flush_run ?P)) + 1"
    by (simp add: flush_run_eq)
  have n: "2 - int (nstep (flush_run ?P)) + 1 = 0"
    by (simp add: flush_run_eq)
  have sp: "backward_return_spec ?P (fst (flush_call ?P)) scenario_table ?b (Fin 2) 2 0 =
              Some (1 + 0.9 * (1 + 0.9 * 0))"
    unfolding flush_call_Sarsa fst_conv
    by (simp add: backward_return_spec_def Buffer_get_def Let_def upto.simps Sarsa_def
        table_agent_def scenario_table_def)
  have "snd (flush_call ?P) = Inr (Command (1 + 0.9 * (1 + 0.9 * 0)) (Some 0) (Some 0) False)"
    using backward_return_exact [OF h1 h2 h3 h4] unfolding n sp
    by (simp add: Buffer_get_def)
  with h2 h3 h4 sp show ?thesis by (intro conjI) assumption+
qed

text \<open>
  C5.  For \<open>nstep = 1\<close>, every policy and every call with \<open>t \<ge> 0\<close> of an episode in which
  no earlier call was terminal: the transition is written to the slot at \<open>t + 1\<close>, the
  backward loop does nothing, and the return handed out is the one-step target
  \<open>terminalReturn(new_s, new_a, r)\<close> of that slot; \<open>terminate\<close> is the terminal flag of the
  call.
\<close>

theorem nstep1_one_step_target:
  assumes "nstep self0 = 1"
    and "self = NStepAlgo_calls P (init_episode self0 s0 a0) cs"
    and "\<forall>c\<in>set cs. \<not> call_is_terminal c"
    and "0 \<le> t"
    and "NStepAlgo_call P self ag s a r new_s new_a t is_terminal = (self', res)"
  shows "\<exists>b. buffer self' = Some b \<and>
      Buffer_get b (t + 1) = Some (new_s, new_a, r) \<and>
      (\<forall>rt. get_return_loop P self' ag b t t rt = Inr rt) \<and>
      get_return P self' ag t t = Inr (end_return P self' ag new_s new_a r) \<and>
      res = Inr (Command (end_return P self' ag new_s new_a r)
                   (map_option fst (Buffer_get b t)) (map_option (fst \<circ> snd) (Buffer_get b t))
                   is_terminal)"
proof -
  have "find call_is_terminal cs = None"
    using assms(3) by (simp add: find_None_iff)
  then have T0: "T_step self = Some NpInf"
    using T_step_calls_NpInf [of "init_episode self0 s0 a0" P cs] assms(2)
    by (simp add: init_episode_def)
  have T': "T_step self' = Some (if is_terminal then Fin (t + 1) else NpInf)"
    using T_step_call [of P self ag s a r new_s new_a t is_terminal] assms(5) T0 by simp
  from nstep1_return [OF assms(1,2,4,5)]
  obtain b T where b: "buffer self' = Some b" and T: "T_step self' = Some T"
    and loop: "\<forall>rt. get_return_loop P self' ag b (min_tstep (t + 1) T - 1) t rt = Inr rt"
    and gr: "get_return P self' ag t t =
               call_end_return P self' ag (Buffer_get b (min_tstep (t + 1) T))"
    and r1: "res = (case call_end_return P self' ag (Buffer_get b (min_tstep (t + 1) T)) of
               Inl e \<Rightarrow> Inl e
             | Inr rt \<Rightarrow> Inr (Command rt (map_option fst (Buffer_get b t))
                                (map_option (fst \<circ> snd) (Buffer_get b t))
                                (ge_tstep_minus_1 t T)))"
    and sl: "lt_tstep t T \<longrightarrow> Buffer_get b (min_tstep (t + 1) T) = Some (new_s, new_a, r)"
    by blast
  have Teq: "T = (if is_terminal then Fin (t + 1) else NpInf)"
    using T T' by simp
  have lt: "lt_tstep t T" and m: "min_tstep (t + 1) T = t + 1"
    and tm: "ge_tstep_minus_1 t T = is_terminal"
    by (simp_all add: Teq)
  from sl lt m have slot: "Buffer_get b (t + 1) = Some (new_s, new_a, r)" by simp
  have l2: "\<forall>rt. get_return_loop P self' ag b t t rt = Inr rt"
    using loop m by simp
  have g2: "get_return P self' ag t t = Inr (end_return P self' ag new_s new_a r)"
    using gr by (simp add: m slot call_end_return_def)
  have r2: "res = Inr (Command (end_return P self' ag new_s new_a r)
                   (map_option fst (Buffer_get b t)) (map_option (fst \<circ> snd) (Buffer_get b t))
                   is_terminal)"
    using r1 by (simp add: m slot call_end_return_def tm)
  from b slot l2 g2 r2 show ?thesis by blast
qed

text \<open>C5 at the single-step episode of the scenario.\<close>

theorem nstep1_one_step_target_witness:
  "nstep (NStepAlgo_init 0.9 1 :: (nat, nat) NStepAlgo) = 1 \<and> (0::int) \<le> 0 \<and>
   snd (NStepAlgo_call (Sarsa (table_agent 1)) (init_episode (NStepAlgo_init 0.9 1) 0 0)
          scenario_table 0 0 1 1 0 0 True) =
     Inr (Command (1 + 0.9 * 2) (Some 0) (Some 0) True)"
proof -
  let ?P = "Sarsa (table_agent 1)"
  let ?self0 = "NStepAlgo_init 0.9 1 :: (nat, nat) NStepAlgo"
  let ?c = "NStepAlgo_call ?P (init_episode ?self0 0 0) scenario_table 0 0 1 1 0 0 True"
  have h1: "nstep ?self0 = 1" by (simp add: NStepAlgo_init_def)
  have h2: "init_episode ?self0 0 0 = NStepAlgo_calls ?P (init_episode ?self0 0 0) []" by simp
  have h3: "\<forall>c\<in>set ([] :: (nat \<times> nat \<Rightarrow> real, nat, nat) call list). \<not> call_is_terminal c" by simp
  have h4: "(0::int) \<le> 0" by simp
  have h5: "?c = (fst ?c, snd ?c)" by simp
  have bf: "buffer (fst ?c) = Some [Some (0, 0, 0), Some (1, 0, 1)]"
    and gm: "gamma (fst ?c) = 0.9"
    by (simp_all add: eval_defs Sarsa_def)
  from nstep1_one_step_target [OF h1 h2 h3 h4 h5] obtain b where
    b: "buffer (fst ?c) = Some b"
    and r: "snd ?c = Inr (Command (end_return ?P (fst ?c) scenario_table 1 0 1)
              (map_option fst (Buffer_get b 0)) (map_option (fst \<circ> snd) (Buffer_get b 0)) True)"
    by blast
  from b bf have be: "b = [Some (0, 0, 0), Some (1, 0, 1)]" by simp
  have e0: "end_return ?P slf scenario_table 1 0 1 = 1 + gamma slf * 2" for slf
    by (simp add: Sarsa_def table_agent_def scenario_table_def)
  have e: "end_return ?P (fst ?c) scenario_table 1 0 1 = 1 + 0.9 * 2"
    unfolding e0 gm by simp
  have "snd ?c = Inr (Command (1 + 0.9 * 2) (Some 0) (Some 0) True)"
    unfolding r e be by (simp add: Buffer_get_def)
  with h1 h4 show ?thesis by (intro conjI) assumption+
qed

text \<open>
  C3, as amended.  When the episode has ended within the window
  (\<open>end_t = min (t + 1) T_step = T_step\<close>), the target step is before the horizon and the
  slots from \<open>tgt_t + 1\<close> through \<open>T_step\<close> hold transitions, the return of Sarsa,
  ExpectedSarsa and QLearn is the discounted sum of the buffered rewards from
  \<open>tgt_t + 1\<close> through \<open>T_step\<close> plus \<open>gamma ^ (T_step - tgt_t)\<close> times the policy's value
  estimate at the state and action of the slot at \<open>T_step\<close>: \<open>Q(s, a)\<close> for Sarsa, the
  expectation of \<open>Q(s, .)\<close> under the policy for ExpectedSarsa, the best action value of
  \<open>s\<close> for QLearn.
\<close>

theorem ended_window_return:
  assumes "buffer self = Some b" and "T_step self = Some (Fin T)"
    and "T \<le> t + 1" and "tgt_t < T"
    and "\<forall>j\<in>{tgt_t + 1 .. T}. Buffer_get b j \<noteq> None"
    and "Buffer_get b T = Some (s_T, a_T, r_T)"
  shows "get_return (Sarsa A) self ag t tgt_t =
           Inr (discounted_rewards (gamma self) b (tgt_t + 1) T +
                gamma self ^ nat (T - tgt_t) * q A ag s_T a_T) \<and>
         get_return (ExpectedSarsa A) self ag t tgt_t =
           Inr (discounted_rewards (gamma self) b (tgt_t + 1) T +
                gamma self ^ nat (T - tgt_t) *
                  (\<Sum>cur_a\<leftarrow>action_spec A ag s_T. action_prob A ag s_T cur_a * q A ag s_T cur_a)) \<and>
         get_return (QLearn A) self ag t tgt_t =
           Inr (discounted_rewards (gamma self) b (tgt_t + 1) T +
                gamma self ^ nat (T - tgt_t) * best_action_val A ag s_T)"
proof (intro conjI)
  show "get_return (Sarsa A) self ag t tgt_t =
           Inr (discounted_rewards (gamma self) b (tgt_t + 1) T +
                gamma self ^ nat (T - tgt_t) * q A ag s_T a_T)"
    by (rule ended_window_return_generic [where V = "\<lambda>s a. q A ag s a", OF _ _ assms])
       (simp_all add: Sarsa_def)
  show "get_return (ExpectedSarsa A) self ag t tgt_t =
           Inr (discounted_rewards (gamma self) b (tgt_t + 1) T +
                gamma self ^ nat (T - tgt_t) *
                  (\<Sum>cur_a\<leftarrow>action_spec A ag s_T. action_prob A ag s_T cur_a * q A ag s_T cur_a))"
    by (rule ended_window_return_generic
          [where V = "\<lambda>s a. \<Sum>cur_a\<leftarrow>action_spec A ag s. action_prob A ag s cur_a * q A ag s cur_a",
           OF _ _ assms])
       (simp_all add: ExpectedSarsa_def)
  show "get_return (QLearn A) self ag t tgt_t =
           Inr (discounted_rewards (gamma self) b (tgt_t + 1) T +
                gamma self ^ nat (T - tgt_t) * best_action_val A ag s_T)"
    by (rule ended_window_return_generic [where V = "\<lambda>s a. best_action_val A ag s", OF _ _ assms])
       (simp_all add: QLearn_def)
qed

text \<open>
  C3, as amended, at the end of the two-step episode with \<open>Q(2, 0) = 3\<close>: the return for
  step 0 is \<open>1 + 0.9 * 1 + 0.9 ^ 2 * 3\<close> for the three policies.
\<close>

theorem ended_window_return_witness:
  "buffer (fst (two_step_end (Sarsa (table_agent 1)))) =
     Some [Some (0, 0, 0), Some (1, 1, 1), Some (2, 0, 1)] \<and>
   T_step (fst (two_step_end (Sarsa (table_agent 1)))) = Some (Fin 2) \<and>
   (2::int) \<le> 1 + 1 \<and> (0::int) < 2 \<and>
   Buffer_get [Some (0, 0, 0), Some (1, 1, 1), Some (2, 0, 1) :: (nat, nat) slot] 1 = Some (1, 1, 1) \<and>
   Buffer_get [Some (0, 0, 0), Some (1, 1, 1), Some (2, 0, 1) :: (nat, nat) slot] 2 = Some (2, 0, 1) \<and>
   get_return (Sarsa (table_agent 1)) (fst (two_step_end (Sarsa (table_agent 1))))
     (scenario_table((2, 0) := 3)) 1 0 = Inr (1 + 0.9 * 1 + 0.9 ^ 2 * 3) \<and>
   get_return (ExpectedSarsa (table_agent 1)) (fst (two_step_end (Sarsa (table_agent 1))))
     (scenario_table((2, 0) := 3)) 1 0 = Inr (1 + 0.9 * 1 + 0.9 ^ 2 * 3) \<and>
   get_return (QLearn (table_agent 1)) (fst (two_step_end (Sarsa (table_agent 1))))
     (scenario_table((2, 0) := 3)) 1 0 = Inr (1 + 0.9 * 1 + 0.9 ^ 2 * 3)"
proof -
  let ?X = "fst (two_step_end (Sarsa (table_agent 1)))"
  let ?b = "[Some (0, 0, 0), Some (1, 1, 1), Some (2, 0, 1)] :: (nat, nat) slot Buffer"
  let ?ag = "scenario_table((2, 0) := 3)"
  have h1: "buffer ?X = Some ?b" and h2: "T_step ?X = Some (Fin 2)" and gm: "gamma ?X = 0.9"
    by (simp_all add: two_step_end_Sarsa)
  have h3: "(2::int) \<le> 1 + 1" and h4: "(0::int) < 2" by simp_all
  have g1: "Buffer_get ?b 1 = Some (1, 1, 1)" and g2: "Buffer_get ?b 2 = Some (2, 0, 1)"
    by (simp_all add: Buffer_get_def)
  have h5: "\<forall>j\<in>{0 + 1 .. 2::int}. Buffer_get ?b j \<noteq> None"
  proof
    fix j :: int assume "j \<in> {0 + 1 .. 2}"
    then have "j = 1 \<or> j = 2" by auto
    then show "Buffer_get ?b j \<noteq> None" using g1 g2 by auto
  qed
  note inst = ended_window_return [OF h1 h2 h3 h4 h5 g2, of "table_agent 1" ?ag]
  have d: "discounted_rewards 0.9 ?b (0 + 1) 2 = 1 + 0.9 * 1"
    by (simp add: discounted_rewards_def slot_reward_def Buffer_get_def upto.simps)
  have v: "q (table_agent 1) ?ag 2 0 = 3"
    "(\<Sum>cur_a\<leftarrow>action_spec (table_agent 1) ?ag 2.
        action_prob (table_agent 1) ?ag 2 cur_a * q (table_agent 1) ?ag 2 cur_a) = 3"
    "best_action_val (table_agent 1) ?ag 2 = 3"
    by (simp_all add: table_agent_def)
  have p: "nat (2 - 0) = 2" by simp
  from inst have
    "get_return (Sarsa (table_agent 1)) ?X ?ag 1 0 = Inr (1 + 0.9 * 1 + 0.9 ^ 2 * 3)"
    "get_return (ExpectedSarsa (table_agent 1)) ?X ?ag 1 0 = Inr (1 + 0.9 * 1 + 0.9 ^ 2 * 3)"
    "get_return (QLearn (table_agent 1)) ?X ?ag 1 0 = Inr (1 + 0.9 * 1 + 0.9 ^ 2 * 3)"
    unfolding gm d v p by blast+
  with h1 h2 h3 h4 g1 g2 show ?thesis by (intro conjI) assumption+
qed

text \<open>
  C3 as stated fails.  In the single-step episode \<open>end_t = T_step = 1\<close> and the Sarsa
  return for step 0 is \<open>1 + 0.9 * 2\<close>, while the discounted sum of the buffered rewards
  is 1: the value estimate \<open>Q(1, 0) = 2\<close> is bootstrapped.  In the two-step episode with
  TreeLearn \<open>end_t = T_step = 2\<close>, the value estimate at the last slot is 0 and the return
  for step 0 is \<open>1 + 0.9 * 2\<close>, while the discounted sum of the rewards is \<open>1 + 0.9 * 1\<close>:
  the tree backup replaces the tail by \<open>Q(1, 0)\<close> at a non-greedy action.
\<close>

theorem ended_return_keeps_estimate:
  "T_step ended_episode = Some (Fin 1) \<and>
   buffer ended_episode = Some [Some (0, 0, 0), Some (1, 0, 1)] \<and>
   min_tstep (0 + 1) (Fin 1) = 1 \<and>
   get_return (Sarsa (table_agent 1)) ended_episode scenario_table 0 0 = Inr (1 + 0.9 * 2) \<and>
   discounted_rewards 0.9 [Some (0, 0, 0), Some (1, 0, 1) :: (nat, nat) slot] (0 + 1) 1 = 1 \<and>
   T_step (fst (two_step_end (TreeLearn (table_agent 1)))) = Some (Fin 2) \<and>
   buffer (fst (two_step_end (TreeLearn (table_agent 1)))) =
     Some [Some (0, 0, 0), Some (1, 1, 1), Some (2, 0, 1)] \<and>
   min_tstep (1 + 1) (Fin 2) = 2 \<and>
   get_return (TreeLearn (table_agent 1)) (fst (two_step_end (TreeLearn (table_agent 1))))
     scenario_table 1 0 = Inr (1 + 0.9 * 2) \<and>
   discounted_rewards 0.9 [Some (0, 0, 0), Some (1, 1, 1), Some (2, 0, 1) :: (nat, nat) slot] (0 + 1) 2
     = 1 + 0.9 * 1 \<and>
   best_action_val (table_agent 1) scenario_table 2 = 0"
proof -
  let ?TL = "TreeLearn (table_agent 1)"
  have a1: "T_step ended_episode = Some (Fin 1)"
    and a2: "buffer ended_episode = Some [Some (0, 0, 0), Some (1, 0, 1)]"
    by (simp_all add: ended_episode_eq)
  have a3: "min_tstep (0 + 1) (Fin 1) = 1" by simp
  have a4: "get_return (Sarsa (table_agent 1)) ended_episode scenario_table 0 0 = Inr (1 + 0.9 * 2)"
    by (simp add: ended_episode_eq get_return_def call_end_return_def get_return_loop.simps
        Buffer_get_def Let_def Sarsa_def table_agent_def scenario_table_def)
  have a5: "discounted_rewards 0.9 [Some (0, 0, 0), Some (1, 0, 1) :: (nat, nat) slot] (0 + 1) 1 = 1"
    by (simp add: discounted_rewards_def slot_reward_def Buffer_get_def upto.simps)
  have b1: "T_step (fst (two_step_end ?TL)) = Some (Fin 2)"
    and b2: "buffer (fst (two_step_end ?TL)) = Some [Some (0, 0, 0), Some (1, 1, 1), Some (2, 0, 1)]"
    by (simp_all add: two_step_end_TreeLearn)
  have b3: "min_tstep (1 + 1) (Fin 2) = 2" by simp
  have b4: "get_return ?TL (fst (two_step_end ?TL)) scenario_table 1 0 = Inr (1 + 0.9 * 2)"
    unfolding two_step_end_TreeLearn fst_conv
    by (simp add: get_return_def call_end_return_def call_step_return_def get_return_loop.simps
        Buffer_get_def Let_def TreeLearn_def table_agent_def scenario_table_def)
  have b5: "discounted_rewards 0.9 [Some (0, 0, 0), Some (1, 1, 1), Some (2, 0, 1) :: (nat, nat) slot]
              (0 + 1) 2 = 1 + 0.9 * 1"
    by (simp add: discounted_rewards_def slot_reward_def Buffer_get_def upto.simps)
  have b6: "best_action_val (table_agent 1) scenario_table 2 = 0"
    by (simp add: table_agent_def scenario_table_def)
  from a1 a2 a3 a4 a5 b1 b2 b3 b4 b5 b6 show ?thesis by (intro conjI) assumption+
qed

subsection \<open>The exploration bonus\<close>





subsection \<open>Dyna\<close>

lemma keys_update: "fst ` set (AList.update k v al) = insert k (fst ` set al)"
  by (simp add: dom_update)

lemma Dyna_call_model:
  "model (fst (fst (Dyna_call A P algo_call rnd self ag s a r new_s new_a t is_terminal))) =
     (if is_terminal then model self else AList.update (s, a) (new_s, r) (model self))"
  by (simp add: Dyna_call_def Dyna_update_def Let_def split: prod.splits option.splits)

lemma Dyna_run_keys:
  "fst ` set (model (fst (Dyna_run A P algo_call ie (self, ag) es))) =
     fst ` set (model self) \<union> observed es"
proof (induction es arbitrary: self ag)
  case Nil
  then show ?case by simp
next
  case (Cons e es)
  show ?case
  proof (cases e)
    case (InitEpisode s a)
    then show ?thesis
      by (simp add: Cons.IH Dyna_init_episode_def)
  next
    case (Call rnd s a r new_s new_a t is_terminal)
    obtain self' ag' where st: "fst (Dyna_call A P algo_call rnd self ag s a r new_s new_a t is_terminal) = (self', ag')"
      by (cases "fst (Dyna_call A P algo_call rnd self ag s a r new_s new_a t is_terminal)") auto
    have m: "model self' = (if is_terminal then model self else AList.update (s, a) (new_s, r) (model self))"
      using Dyna_call_model [of A P algo_call rnd self ag s a r new_s new_a t is_terminal] st by simp
    show ?thesis
      by (simp add: Call st Cons.IH m keys_update)
  qed
qed

lemma step_sim_ok:
  "(s, a) \<in> fst ` set (model self) \<Longrightarrow> \<exists>ag'. step_sim A P self ag s a = Inr ag'"
proof -
  assume "(s, a) \<in> fst ` set (model self)"
  then obtain v where "map_of (model self) (s, a) = Some v"
    by (metis domD dom_map_of_conv_image_fst)
  then show ?thesis
    by (cases v) (simp add: step_sim_def Let_def split: prod.splits)
qed

lemma Dyna_simulate_loop_ok:
  "set samp \<subseteq> fst ` set (model self) \<Longrightarrow> snd (Dyna_simulate_loop A P self ag samp) = None"
proof (induction samp arbitrary: ag)
  case Nil
  then show ?case by simp
next
  case (Cons p samp)
  obtain s a where p: "p = (s, a)" by (cases p)
  with Cons.prems obtain ag' where "step_sim A P self ag s a = Inr ag'"
    using step_sim_ok [of s a self A P ag] by auto
  with Cons show ?case by (simp add: p)
qed

lemma random_choices_subset:
  "random_choices rnd population k = Inr samp \<Longrightarrow> set samp \<subseteq> set population \<and> length samp = k"
  by (auto simp: random_choices_def split: if_splits)

lemma random_choices_ok:
  "population \<noteq> [] \<Longrightarrow> \<exists>samp. random_choices rnd population k = Inr samp"
  by (simp add: random_choices_def)

text \<open>
  C6.  For a \<open>Dyna\<close> object after any sequence of episode starts and calls since its
  creation: the keys of the model are exactly the pairs \<open>(s, a)\<close> of the real transitions
  that were not terminal.  A call simulates only when it is not terminal, after it has
  recorded its own pair; the \<open>nsim\<close> pairs it then draws are keys of the model, hence
  observed pairs, the model lookup of every simulated step succeeds and the simulation
  raises nothing.  A terminal call simulates nothing.
\<close>

theorem dyna_simulates_observed_pairs:
  assumes "self = fst (Dyna_run A P algo_call ie (Dyna_init al pl n, ag0) es)"
    and "self1 = Dyna_update self s a new_s new_a r"
  shows "fst ` set (model self) = observed es \<and>
         fst ` set (model self1) = insert (s, a) (observed es) \<and>
         (\<exists>samp. random_choices rnd (map fst (model self1)) (nsim self1) = Inr samp \<and>
                 length samp = nsim self1 \<and>
                 set samp \<subseteq> insert (s, a) (observed es) \<and>
                 (\<forall>p\<in>set samp. map_of (model self1) p \<noteq> None) \<and>
                 Dyna_simulate A P rnd self1 ag = Dyna_simulate_loop A P self1 ag samp \<and>
                 snd (Dyna_simulate_loop A P self1 ag samp) = None \<and>
                 Dyna_call A P algo_call rnd self ag s a r new_s new_a t False =
                   (case algo_call (algo self1) (fst (Dyna_simulate_loop A P self1 ag samp))
                           s a r new_s new_a t False of
                      ((alg', ag2), res) \<Rightarrow> ((self1\<lparr>algo := alg'\<rparr>, ag2), res))) \<and>
         Dyna_call A P algo_call rnd self ag s a r new_s new_a t True =
           (case algo_call (algo self) ag s a r new_s new_a t True of
              ((alg', ag2), res) \<Rightarrow> ((self\<lparr>algo := alg'\<rparr>, ag2), res))"
proof -
  have k0: "fst ` set (model self) = observed es"
    using Dyna_run_keys [of A P algo_call ie "Dyna_init al pl n" ag0 es] assms(1)
    by (simp add: Dyna_init_def)
  have k1: "fst ` set (model self1) = insert (s, a) (observed es)"
    using k0 by (simp add: assms(2) Dyna_update_def keys_update)
  then have ne: "map fst (model self1) \<noteq> []" by auto
  obtain samp where rc: "random_choices rnd (map fst (model self1)) (nsim self1) = Inr samp"
    using random_choices_ok [OF ne] by blast
  have sub: "set samp \<subseteq> fst ` set (model self1)" and len: "length samp = nsim self1"
    using random_choices_subset [OF rc] by auto
  have look: "\<forall>p\<in>set samp. map_of (model self1) p \<noteq> None"
    using sub by (metis domIff dom_map_of_conv_image_fst subsetD)
  have sim: "Dyna_simulate A P rnd self1 ag = Dyna_simulate_loop A P self1 ag samp"
    by (simp add: Dyna_simulate_def rc)
  have ok: "snd (Dyna_simulate_loop A P self1 ag samp) = None"
    by (rule Dyna_simulate_loop_ok [OF sub])
  have c1: "Dyna_call A P algo_call rnd self ag s a r new_s new_a t False =
                   (case algo_call (algo self1) (fst (Dyna_simulate_loop A P self1 ag samp))
                           s a r new_s new_a t False of
                      ((alg', ag2), res) \<Rightarrow> ((self1\<lparr>algo := alg'\<rparr>, ag2), res))"
  proof -
    obtain ag1 where l: "Dyna_simulate_loop A P self1 ag samp = (ag1, None)"
      using ok by (cases "Dyna_simulate_loop A P self1 ag samp") auto
    show ?thesis
      using sim by (simp add: Dyna_call_def Let_def assms(2) [symmetric] l)
  qed
  have c2: "Dyna_call A P algo_call rnd self ag s a r new_s new_a t True =
           (case algo_call (algo self) ag s a r new_s new_a t True of
              ((alg', ag2), res) \<Rightarrow> ((self\<lparr>algo := alg'\<rparr>, ag2), res))"
    by (simp add: Dyna_call_def)
  have sub': "set samp \<subseteq> insert (s, a) (observed es)"
    using sub k1 by simp
  show ?thesis
    using k0 k1 rc len sub' look sim ok c1 c2 by blast
qed

lemma dyna_demo_eq:
  "fst dyna_demo =
     \<lparr>algo = \<lparr>gamma = 0.9, nstep = 1, buffer = Some [Some (0, 0, 0), Some (1, 0, 1)],
               T_step = Some NpInf\<rparr>,
      plan_algo = \<lparr>gamma = 0.9, nstep = 1, buffer = Some [Some (0, 0, 0), None],
               T_step = Some NpInf\<rparr>,
      nsim = 2, model = [((0, 0), (1, 1))]\<rparr>"
  by (simp add: dyna_demo_def dyna_events_def Dyna_init_def Dyna_init_episode_def Dyna_call_def
      Dyna_update_def Dyna_simulate_def random_choices_def step_sim_def NStepAlgo_as_algo_def
      Sarsa_def eval_defs)

text \<open>
  C6 on the concrete \<open>Dyna\<close>: after the pair \<open>(0, 0)\<close> was observed, the call for
  \<open>(1, 0)\<close> draws its two pairs among \<open>(0, 0)\<close> and \<open>(1, 0)\<close>.
\<close>

theorem dyna_simulates_observed_pairs_witness:
  "observed dyna_events = {(0, 0)} \<and>
   fst ` set (model (fst dyna_demo)) = {(0, 0)} \<and>
   fst ` set (model (Dyna_update (fst dyna_demo) 1 0 2 0 1)) = {(1, 0), (0, 0)} \<and>
   random_choices (\<lambda>i. i) (map fst (model (Dyna_update (fst dyna_demo) 1 0 2 0 1))) 2 =
     Inr [(0, 0), (1, 0)] \<and>
   snd (Dyna_simulate (table_agent (1/2)) (Sarsa (table_agent (1/2))) (\<lambda>i. i)
          (Dyna_update (fst dyna_demo) 1 0 2 0 1) (snd dyna_demo)) = None"
proof -
  have h1: "fst dyna_demo =
      fst (Dyna_run (table_agent (1/2)) (Sarsa (table_agent (1/2)))
             (NStepAlgo_as_algo (Sarsa (table_agent (1/2)))) init_episode
             (Dyna_init (NStepAlgo_init 0.9 1) (NStepAlgo_init 0.9 1) 2, \<lambda>p. 0) dyna_events)"
    by (simp add: dyna_demo_def)
  have h2: "Dyna_update (fst dyna_demo) 1 0 2 0 1 = Dyna_update (fst dyna_demo) 1 0 2 0 1"
    by (rule refl)
  note inst = dyna_simulates_observed_pairs [OF h1 h2, of "\<lambda>i. i" "snd dyna_demo" 0]
  have ob: "observed dyna_events = {(0, 0)}"
    by (simp add: dyna_events_def)
  have rc: "random_choices (\<lambda>i. i) (map fst (model (Dyna_update (fst dyna_demo) 1 0 2 0 1))) 2 =
     Inr [(0, 0), (1, 0)]"
    by (simp add: dyna_demo_eq Dyna_update_def random_choices_def eval_nat_numeral)
  have k0: "fst ` set (model (fst dyna_demo)) = {(0, 0)}"
    using inst ob by simp
  have k1: "fst ` set (model (Dyna_update (fst dyna_demo) 1 0 2 0 1)) = {(1, 0), (0, 0)}"
    using inst ob by simp
  have ok: "snd (Dyna_simulate (table_agent (1/2)) (Sarsa (table_agent (1/2))) (\<lambda>i. i)
          (Dyna_update (fst dyna_demo) 1 0 2 0 1) (snd dyna_demo)) = None"
    using inst by auto
  from ob k0 k1 rc ok show ?thesis by (intro conjI) assumption+
qed

subsection \<open>Prioritized sweeping\<close>

lemma update_pq_fields [simp]:
  "model (update_pq A P self ag s a new_s new_a r) = model self"
  "rev_model (update_pq A P self ag s a new_s new_a r) = rev_model self"
  "theta (update_pq A P self ag s a new_s new_a r) = theta self"
  "plan_algo (update_pq A P self ag s a new_s new_a r) = plan_algo self"
  "nsim (update_pq A P self ag s a new_s new_a r) = nsim self"
  "algo (update_pq A P self ag s a new_s new_a r) = algo self"
  by (simp_all add: update_pq_def Let_def)

lemma update_pq_eq:
  "update_pq A P self ag s a new_s new_a r =
     self\<lparr>pq := pq self @ (if residual A P self ag s a new_s new_a r > theta self then [(s, a)] else [])\<rparr>"
  by (simp add: update_pq_def residual_def heappush_def Let_def)

lemma residual_pq [simp]: "residual A P (self\<lparr>pq := h\<rparr>) = residual A P self"
  by (simp add: residual_def fun_eq_iff)

lemma modeled_reward_pq [simp]: "modeled_reward (self\<lparr>pq := h\<rparr>) = modeled_reward self"
  by (simp add: modeled_reward_def fun_eq_iff)

lemma predecessors_pq [simp]: "predecessors (self\<lparr>pq := h\<rparr>) = predecessors self"
  by (simp add: predecessors_def fun_eq_iff)

lemma sweep_predecessors_eq:
  "\<forall>p\<in>set preds. map_of (model self) p \<noteq> None \<Longrightarrow>
   sweep_predecessors A P self ag s a preds =
     (self\<lparr>pq := pq self @
        filter (\<lambda>p. residual A P self ag (fst p) (snd p) s a (modeled_reward self p) > theta self)
          preds\<rparr>, None)"
proof (induction preds arbitrary: self)
  case Nil
  then show ?case by simp
next
  case (Cons p preds)
  obtain prev_s prev_a where p: "p = (prev_s, prev_a)" by (cases p)
  from Cons.prems obtain st r where m: "map_of (model self) (prev_s, prev_a) = Some (st, r)"
    by (auto simp: p)
  have mr: "modeled_reward self (prev_s, prev_a) = r"
    by (simp add: modeled_reward_def m)
  let ?self1 = "update_pq A P self ag prev_s prev_a s a r"
  have IH: "sweep_predecessors A P ?self1 ag s a preds =
     (?self1\<lparr>pq := pq ?self1 @
        filter (\<lambda>p. residual A P ?self1 ag (fst p) (snd p) s a (modeled_reward ?self1 p) > theta ?self1)
          preds\<rparr>, None)"
    using Cons.prems by (intro Cons.IH) simp
  show ?case
    unfolding p sweep_predecessors.simps m option.case prod.case IH
    by (simp add: update_pq_eq mr)
qed

lemma heappop_min:
  assumes "h \<noteq> []"
  shows "\<exists>m. heappop h = Inr (m, remove1 m h) \<and> m \<in> set h \<and> (\<forall>x\<in>set h. m \<le> x)"
proof -
  obtain x xs where h: "h = x # xs" using assms by (cases h) auto
  have f: "fold min xs x = Min (set (x # xs))"
    by (simp only: Min.set_eq_fold)
  have "Min (set (x # xs)) \<in> set (x # xs)" by (rule Min_in) simp_all
  moreover have "\<forall>y\<in>set (x # xs). Min (set (x # xs)) \<le> y" by simp
  ultimately show ?thesis
    unfolding h heappop.simps Let_def f by blast
qed

lemma step_sim_pq [simp]: "step_sim A P (self\<lparr>pq := h\<rparr>) ag s a = step_sim A P self ag s a"
  by (simp add: step_sim_def split: option.split prod.split)

lemma step_sim_Inr:
  "map_of (model self) (s, a) = Some (new_s, r) \<Longrightarrow>
   step_sim A P self ag s a =
     Inr (update_agent A (snd (get_action A ag new_s))
            (end_return P (plan_algo self) (snd (get_action A ag new_s)) new_s
               (fst (get_action A ag new_s)) r) s a)"
  by (simp add: step_sim_def Let_def split: prod.splits)

lemma consistent_pq:
  "consistent self \<Longrightarrow> set h \<subseteq> dom (map_of (model self)) \<Longrightarrow> consistent (self\<lparr>pq := h\<rparr>)"
  by (simp add: consistent_def)

lemma consistent_preds:
  assumes "consistent self" and "p \<in> set (predecessors self s)"
  shows "\<exists>r. map_of (model self) p = Some (s, r)"
proof -
  from assms(2) obtain preds where "map_of (rev_model self) s = Some preds" and "p \<in> set preds"
    by (cases "map_of (rev_model self) s") (auto simp: predecessors_def)
  with assms(1) show ?thesis unfolding consistent_def by blast
qed

lemma simulate_body_eq:
  assumes c: "consistent self" and ne: "pq self \<noteq> []"
  shows "\<exists>s a ag1. heappop (pq self) = Inr ((s, a), remove1 (s, a) (pq self)) \<and>
      (s, a) \<in> set (pq self) \<and> (\<forall>x\<in>set (pq self). (s, a) \<le> x) \<and>
      step_sim A P self ag s a = Inr ag1 \<and>
      simulate_body A P self ag =
        ((self\<lparr>pq := remove1 (s, a) (pq self) @
            filter (\<lambda>p. residual A P self ag1 (fst p) (snd p) s a (modeled_reward self p) > theta self)
              (predecessors self s)\<rparr>, ag1), None)"
proof -
  obtain m where hp: "heappop (pq self) = Inr (m, remove1 m (pq self))"
    and mem: "m \<in> set (pq self)" and le: "\<forall>x\<in>set (pq self). m \<le> x"
    using heappop_min [OF ne] by blast
  obtain s a where m: "m = (s, a)" by (cases m)
  have "set (pq self) \<subseteq> dom (map_of (model self))"
    using c unfolding consistent_def by blast
  with mem have "(s, a) \<in> dom (map_of (model self))" unfolding m by blast
  then obtain new_s r where mo: "map_of (model self) (s, a) = Some (new_s, r)"
    by (cases "map_of (model self) (s, a)") auto
  let ?h = "remove1 (s, a) (pq self)"
  let ?self1 = "self\<lparr>pq := ?h\<rparr>"
  obtain ag1 where ss: "step_sim A P self ag s a = Inr ag1"
    using step_sim_Inr [OF mo, of A P ag] by blast
  have pm: "\<forall>p\<in>set (predecessors self s). map_of (model ?self1) p \<noteq> None"
  proof
    fix p assume "p \<in> set (predecessors self s)"
    from consistent_preds [OF c this] obtain r0 where "map_of (model self) p = Some (s, r0)" ..
    then show "map_of (model ?self1) p \<noteq> None" by simp
  qed
  have body: "simulate_body A P self ag =
        ((self\<lparr>pq := ?h @
            filter (\<lambda>p. residual A P self ag1 (fst p) (snd p) s a (modeled_reward self p) > theta self)
              (predecessors self s)\<rparr>, ag1), None)"
  proof (cases "map_of (rev_model self) s")
    case None
    then show ?thesis
      by (simp add: simulate_body_def hp m Let_def ss predecessors_def)
  next
    case (Some preds)
    then have pr: "predecessors self s = preds" by (simp add: predecessors_def)
    show ?thesis
      using sweep_predecessors_eq [OF pm, of A P ag1 s a]
      by (simp add: simulate_body_def hp m Let_def ss Some pr)
  qed
  show ?thesis
    using hp mem le ss body unfolding m by blast
qed

lemma simulate_body_consistent:
  assumes c: "consistent self" and ne: "pq self \<noteq> []"
  shows "consistent (fst (fst (simulate_body A P self ag))) \<and> snd (simulate_body A P self ag) = None"
proof -
  obtain s a ag1 where mem: "(s, a) \<in> set (pq self)"
    and body: "simulate_body A P self ag =
        ((self\<lparr>pq := remove1 (s, a) (pq self) @
            filter (\<lambda>p. residual A P self ag1 (fst p) (snd p) s a (modeled_reward self p) > theta self)
              (predecessors self s)\<rparr>, ag1), None)"
    using simulate_body_eq [OF c ne, of A P ag] by blast
  have "set (pq self) \<subseteq> dom (map_of (model self))"
    using c unfolding consistent_def by blast
  then have 1: "set (remove1 (s, a) (pq self)) \<subseteq> dom (map_of (model self))"
    using set_remove1_subset [of "(s, a)" "pq self"] by blast
  have 2: "set (predecessors self s) \<subseteq> dom (map_of (model self))"
  proof
    fix p assume "p \<in> set (predecessors self s)"
    from consistent_preds [OF c this] obtain r0 where "map_of (model self) p = Some (s, r0)" ..
    then show "p \<in> dom (map_of (model self))" by blast
  qed
  have 3: "set (remove1 (s, a) (pq self) @
            filter (\<lambda>p. residual A P self ag1 (fst p) (snd p) s a (modeled_reward self p) > theta self)
              (predecessors self s)) \<subseteq> dom (map_of (model self))"
    using 1 2 by (simp add: subset_iff)
  show ?thesis
    unfolding body using consistent_pq [OF c 3] by simp
qed

lemma simulate_loop_consistent:
  "consistent self \<Longrightarrow>
   consistent (fst (fst (PrioritizedSweep_simulate_loop A P n self ag))) \<and>
   snd (PrioritizedSweep_simulate_loop A P n self ag) = None"
proof (induction n arbitrary: self ag)
  case 0
  then show ?case by simp
next
  case (Suc n)
  show ?case
  proof (cases "pq self = []")
    case True
    with Suc.prems show ?thesis by simp
  next
    case False
    obtain self' ag' where b: "simulate_body A P self ag = ((self', ag'), None)"
      using simulate_body_consistent [OF Suc.prems False, of A P ag]
      by (cases "simulate_body A P self ag") auto
    then have "consistent self'"
      using simulate_body_consistent [OF Suc.prems False, of A P ag] by simp
    from Suc.IH [OF this, of ag'] False b show ?thesis by simp
  qed
qed

lemma set_add_set [simp]: "set (set_add xs x) = insert x (set xs)"
  by (auto simp: set_add_def)

lemma set_add_distinct: "distinct xs \<Longrightarrow> distinct (set_add xs x)"
  by (simp add: set_add_def)

text \<open>The reverse model after the removal of the stale predecessor.\<close>

lemma update_Inr:
  assumes c: "consistent self"
  shows "\<exists>R1. 
     (case map_of (model self) (s, a) of
        None \<Rightarrow> R1 = map_of (rev_model self)
      | Some (old, r0) \<Rightarrow> (\<exists>preds0. map_of (rev_model self) old = Some preds0 \<and> (s, a) \<in> set preds0 \<and>
            R1 = (map_of (rev_model self))(old \<mapsto> remove1 (s, a) preds0))) \<and>
     (\<exists>self'. PrioritizedSweep_update A P self ag s a new_s new_a r = Inr self' \<and>
        map_of (model self') = (map_of (model self))((s, a) \<mapsto> (new_s, r)) \<and>
        map_of (rev_model self') =
          R1(new_s \<mapsto> (case R1 new_s of None \<Rightarrow> [(s, a)] | Some preds \<Rightarrow> set_add preds (s, a))) \<and>
        pq self' = pq self @
          (if residual A P self ag s a new_s new_a r > theta self then [(s, a)] else []) \<and>
        theta self' = theta self \<and> plan_algo self' = plan_algo self \<and>
        nsim self' = nsim self \<and> algo self' = algo self)"
proof (cases "map_of (model self) (s, a)")
  case None
  then show ?thesis
    by (simp add: PrioritizedSweep_update_def Let_def update_conv' Dyna_update_def update_pq_eq
        residual_def split: option.split)
next
  case (Some v)
  obtain old r0 where v: "v = (old, r0)" by (cases v)
  from c Some obtain preds0 where p0: "map_of (rev_model self) old = Some preds0"
    and mem: "(s, a) \<in> set preds0"
    unfolding consistent_def v by blast
  show ?thesis
    using Some p0 mem
    by (simp add: v PrioritizedSweep_update_def Let_def update_conv' Dyna_update_def update_pq_eq
        residual_def set_remove_def split: option.split)
qed

lemma consistentI:
  assumes "\<And>st preds. map_of (rev_model self) st = Some preds \<Longrightarrow> distinct preds"
    and "\<And>st preds p. map_of (rev_model self) st = Some preds \<Longrightarrow> p \<in> set preds \<Longrightarrow>
           \<exists>r. map_of (model self) p = Some (st, r)"
    and "\<And>p st r. map_of (model self) p = Some (st, r) \<Longrightarrow>
           \<exists>preds. map_of (rev_model self) st = Some preds \<and> p \<in> set preds"
    and "set (pq self) \<subseteq> dom (map_of (model self))"
  shows "consistent self"
  unfolding consistent_def using assms by blast

lemma consistentD:
  assumes "consistent self"
  shows "map_of (rev_model self) st = Some preds \<Longrightarrow> distinct preds"
    and "map_of (rev_model self) st = Some preds \<Longrightarrow> p \<in> set preds \<Longrightarrow>
           \<exists>r. map_of (model self) p = Some (st, r)"
    and "map_of (model self) p = Some (st, r) \<Longrightarrow>
           \<exists>preds. map_of (rev_model self) st = Some preds \<and> p \<in> set preds"
    and "set (pq self) \<subseteq> dom (map_of (model self))"
  using assms unfolding consistent_def by blast+

lemma update_consistent:
  assumes c: "consistent self"
    and u: "PrioritizedSweep_update A P self ag s a new_s new_a r = Inr self'"
  shows "consistent self'"
proof -
  let ?M = "map_of (model self)" and ?R = "map_of (rev_model self)"
  obtain R1 where R1: "(case ?M (s, a) of
        None \<Rightarrow> R1 = ?R
      | Some (old, r0) \<Rightarrow> (\<exists>preds0. ?R old = Some preds0 \<and> (s, a) \<in> set preds0 \<and>
            R1 = ?R(old \<mapsto> remove1 (s, a) preds0)))"
    and M': "map_of (model self') = ?M((s, a) \<mapsto> (new_s, r))"
    and R': "map_of (rev_model self') =
          R1(new_s \<mapsto> (case R1 new_s of None \<Rightarrow> [(s, a)] | Some preds \<Rightarrow> set_add preds (s, a)))"
    and pq': "pq self' = pq self @
          (if residual A P self ag s a new_s new_a r > theta self then [(s, a)] else [])"
    using update_Inr [OF c, of s a A P ag new_s new_a r] u by auto
  note cD = consistentD [OF c]
  \<comment> \<open>the intermediate reverse model keeps the first two properties for pairs other than \<open>(s, a)\<close>\<close>
  have R1_distinct: "distinct preds" if "R1 st = Some preds" for st preds
    using that R1 cD(1) by (auto split: option.splits if_splits simp: distinct_remove1)
  have R1_model: "p \<noteq> (s, a) \<and> (\<exists>r. ?M p = Some (st, r))"
    if "R1 st = Some preds" and "p \<in> set preds" for st preds p
  proof (cases "?M (s, a)")
    case None
    with R1 that have "?R st = Some preds" by simp
    from cD(2) [OF this that(2)] None show ?thesis by auto
  next
    case (Some v)
    obtain old r0 where v: "v = (old, r0)" by (cases v)
    from R1 Some v obtain preds0 where p0: "?R old = Some preds0"
      and R1e: "R1 = ?R(old \<mapsto> remove1 (s, a) preds0)" by auto
    show ?thesis
    proof (cases "st = old")
      case True
      with that R1e have pe: "preds = remove1 (s, a) preds0" by simp
      have d: "distinct preds0" by (rule cD(1) [OF p0])
      from that(2) pe d have "p \<in> set preds0" and "p \<noteq> (s, a)" by auto
      with cD(2) [OF p0] True show ?thesis by auto
    next
      case False
      with that R1e have "?R st = Some preds" by simp
      from cD(2) [OF this that(2)] obtain r1 where "?M p = Some (st, r1)" ..
      with False Some v show ?thesis by auto
    qed
  qed
  have R1_back: "\<exists>preds. R1 st = Some preds \<and> p \<in> set preds"
    if "?M p = Some (st, r1)" and "p \<noteq> (s, a)" for p st r1
  proof -
    from cD(3) [OF that(1)] obtain preds where pr: "?R st = Some preds" and pin: "p \<in> set preds"
      by blast
    show ?thesis
    proof (cases "?M (s, a)")
      case None
      with R1 pr pin show ?thesis by simp
    next
      case (Some v)
      obtain old r0 where v: "v = (old, r0)" by (cases v)
      from R1 Some v obtain preds0 where p0: "?R old = Some preds0"
        and R1e: "R1 = ?R(old \<mapsto> remove1 (s, a) preds0)" by auto
      show ?thesis
        using pr pin p0 that(2) by (cases "st = old") (auto simp: R1e)
    qed
  qed
  show ?thesis
  proof (rule consistentI)
    fix st preds assume h: "map_of (rev_model self') st = Some preds"
    show "distinct preds"
      using h R1_distinct unfolding R'
      by (auto split: if_splits option.splits simp: set_add_distinct)
  next
    fix st preds p assume h: "map_of (rev_model self') st = Some preds" and pin: "p \<in> set preds"
    show "\<exists>r. map_of (model self') p = Some (st, r)"
    proof (cases "p = (s, a)")
      case True
      have "st = new_s"
      proof (rule ccontr)
        assume "st \<noteq> new_s"
        with h have "R1 st = Some preds" unfolding R' by simp
        from R1_model [OF this pin] True show False by simp
      qed
      then show ?thesis by (simp add: M' True)
    next
      case False
      have "\<exists>preds1. R1 st = Some preds1 \<and> p \<in> set preds1"
        using h pin False unfolding R' by (auto split: if_splits option.splits)
      then obtain preds1 where "R1 st = Some preds1" and "p \<in> set preds1" by blast
      from R1_model [OF this] False show ?thesis by (simp add: M')
    qed
  next
    fix p st r1 assume h: "map_of (model self') p = Some (st, r1)"
    show "\<exists>preds. map_of (rev_model self') st = Some preds \<and> p \<in> set preds"
    proof (cases "p = (s, a)")
      case True
      with h have "st = new_s" by (simp add: M')
      then show ?thesis unfolding R' True by (auto split: option.splits)
    next
      case False
      with h have "?M p = Some (st, r1)" by (simp add: M')
      from R1_back [OF this False] show ?thesis
        unfolding R' by (auto split: option.splits)
    qed
  next
    have "set (pq self) \<subseteq> dom ?M" by (rule cD(4))
    then show "set (pq self') \<subseteq> dom (map_of (model self'))"
      unfolding pq' M' by auto
  qed
qed

lemmas sweep_defs = sweep_run_def events_from_def PrioritizedSweep_init_def Dyna_init_episode_def
  PrioritizedSweep_call_def PrioritizedSweep_update_def update_pq_def heappush_def Dyna_update_def
  PrioritizedSweep_simulate_def simulate_body_def step_sim_def set_add_def set_remove_def
  NStepAlgo_as_algo_def Sarsa_def

lemma sweep_state_consistent: "sweep_state A P self \<Longrightarrow> consistent self"
proof (induction rule: sweep_state.induct)
  case (created al pl n th)
  show ?case by (simp add: consistent_def PrioritizedSweep_init_def)
next
  case (episode self ie s a)
  then show ?case by (simp add: consistent_def Dyna_init_episode_def)
next
  case (updated self ag s a new_s new_a r self')
  show ?case by (rule update_consistent [OF updated.IH updated.hyps(2)])
next
  case (swept self ag self' ag')
  from simulate_body_consistent [OF swept.IH swept.hyps(2), of A P ag] swept.hyps(3)
  show ?case by simp
next
  case (inner self alg')
  then show ?case by (simp add: consistent_def)
qed

lemma simulate_loop_sweep_state:
  "sweep_state A P self \<Longrightarrow>
   sweep_state A P (fst (fst (PrioritizedSweep_simulate_loop A P n self ag))) \<and>
   snd (PrioritizedSweep_simulate_loop A P n self ag) = None"
proof (induction n arbitrary: self ag)
  case 0
  then show ?case by simp
next
  case (Suc n)
  show ?case
  proof (cases "pq self = []")
    case True
    with Suc.prems show ?thesis by simp
  next
    case False
    obtain self' ag' where b: "simulate_body A P self ag = ((self', ag'), None)"
      using simulate_body_consistent [OF sweep_state_consistent [OF Suc.prems] False, of A P ag]
      by (cases "simulate_body A P self ag") auto
    have "sweep_state A P self'"
      by (rule sweep_state.swept [OF Suc.prems False b])
    from Suc.IH [OF this, of ag'] False b show ?thesis by simp
  qed
qed

lemma call_sweep_state:
  assumes "sweep_state A P self"
  shows "sweep_state A P (fst (fst (PrioritizedSweep_call A P algo_call self ag s a r new_s new_a t is_terminal)))"
proof (cases is_terminal)
  case True
  then show ?thesis
    using sweep_state.inner [OF assms]
    by (simp add: PrioritizedSweep_call_def split: prod.splits)
next
  case False
  obtain self1 where u: "PrioritizedSweep_update A P self ag s a new_s new_a r = Inr self1"
    using update_Inr [OF sweep_state_consistent [OF assms], of s a A P ag new_s new_a r] by blast
  have s1: "sweep_state A P self1" by (rule sweep_state.updated [OF assms u])
  obtain self2 ag2 where l: "PrioritizedSweep_simulate_loop A P (nsim self1) self1 ag = ((self2, ag2), None)"
    using simulate_loop_sweep_state [OF s1, of "nsim self1" ag]
    by (cases "PrioritizedSweep_simulate_loop A P (nsim self1) self1 ag") auto
  have s2: "sweep_state A P self2"
    using simulate_loop_sweep_state [OF s1, of "nsim self1" ag] l by simp
  show ?thesis
    using False u l sweep_state.inner [OF s2]
    by (simp add: PrioritizedSweep_call_def PrioritizedSweep_simulate_def split: prod.splits)
qed

lemma run_sweep_state:
  "sweep_state A P self \<Longrightarrow>
   sweep_state A P (fst (PrioritizedSweep_run A P algo_call ie (self, ag) es))"
proof (induction es arbitrary: self ag)
  case Nil
  then show ?case by simp
next
  case (Cons e es)
  show ?case
  proof (cases e)
    case (InitEpisode s a)
    with Cons.IH [OF sweep_state.episode [OF Cons.prems]] show ?thesis by simp
  next
    case (Call rnd s a r new_s new_a t is_terminal)
    obtain self' ag' where c: "fst (PrioritizedSweep_call A P algo_call self ag s a r new_s new_a t is_terminal) = (self', ag')"
      by (cases "fst (PrioritizedSweep_call A P algo_call self ag s a r new_s new_a t is_terminal)") auto
    have "sweep_state A P self'"
      using call_sweep_state [OF Cons.prems, of algo_call ag s a r new_s new_a t is_terminal] c by simp
    from Cons.IH [OF this] show ?thesis by (simp add: Call c)
  qed
qed

lemma sweep_run_state: "sweep_state (table_agent 1) (Sarsa (table_agent 1)) (fst (sweep_run n es))"
  unfolding sweep_run_def by (rule run_sweep_state [OF sweep_state.created])

lemma after_update_Inr:
  "PrioritizedSweep_update (table_agent 1) (Sarsa (table_agent 1))
     (fst (sweep_run n (events_from s))) (snd (sweep_run n (events_from s))) (1 - s) 0 s 0 1 =
   Inr (after_update n s)"
proof -
  obtain self1 where "PrioritizedSweep_update (table_agent 1) (Sarsa (table_agent 1))
     (fst (sweep_run n (events_from s))) (snd (sweep_run n (events_from s))) (1 - s) 0 s 0 1 = Inr self1"
    using update_Inr [OF sweep_state_consistent [OF sweep_run_state [of n "events_from s"]],
        of "1 - s" 0 "table_agent 1" "Sarsa (table_agent 1)" "snd (sweep_run n (events_from s))" s 0 1]
    by blast
  then show ?thesis by (simp add: after_update_def)
qed

lemma after_update_state:
  "sweep_state (table_agent 1) (Sarsa (table_agent 1)) (after_update n s)"
  by (rule sweep_state.updated [OF sweep_run_state after_update_Inr])

lemma after_update_2_1:
  "pq (fst (sweep_run 2 (events_from 1))) = [(0, 0)]"
  "pq (after_update 2 1) = [(0, 0), (0, 0)]"
  "nsim (after_update 2 1) = 2"
  "theta (fst (sweep_run 2 (events_from 1))) = 0.05"
  "residual (table_agent 1) (Sarsa (table_agent 1)) (fst (sweep_run 2 (events_from 1)))
     (snd (sweep_run 2 (events_from 1))) 0 0 1 0 1 = 124659 / 100000"
  by (simp_all add: after_update_def residual_def sweep_defs eval_defs)

lemma replayed_2_1:
  "replayed (table_agent 1) (Sarsa (table_agent 1)) 2 (after_update 2 1)
     (snd (sweep_run 2 (events_from 1))) = [(0, 0), (0, 0)]"
  by (simp add: after_update_def sweep_defs eval_defs)

lemma bodies_2_1:
  "map_sum id fst (heappop (pq (after_update 2 1))) = Inr (0, 0)"
  "map_sum id fst (heappop (pq (fst (fst (simulate_body (table_agent 1) (Sarsa (table_agent 1))
      (after_update 2 1) (snd (sweep_run 2 (events_from 1)))))))) = Inr (0, 0)"
  "PrioritizedSweep_simulate (table_agent 1) (Sarsa (table_agent 1)) (after_update 2 1)
      (snd (sweep_run 2 (events_from 1))) =
   simulate_body (table_agent 1) (Sarsa (table_agent 1))
     (fst (fst (simulate_body (table_agent 1) (Sarsa (table_agent 1)) (after_update 2 1)
        (snd (sweep_run 2 (events_from 1))))))
     (snd (fst (simulate_body (table_agent 1) (Sarsa (table_agent 1)) (after_update 2 1)
        (snd (sweep_run 2 (events_from 1))))))"
  by (simp_all add: after_update_def sweep_defs eval_defs)

lemma after_update_1_0:
  "pq (after_update 1 0) = [(0, 0), (1, 0), (1, 0)]"
  "nsim (after_update 1 0) = 1"
  "pending_residual (table_agent 1) (Sarsa (table_agent 1)) (after_update 1 0)
     (snd (sweep_run 1 (events_from 0))) (0, 0) = 0"
  "pending_residual (table_agent 1) (Sarsa (table_agent 1)) (after_update 1 0)
     (snd (sweep_run 1 (events_from 0))) (1, 0) = 1539 / 1000"
  "replayed (table_agent 1) (Sarsa (table_agent 1)) 1 (after_update 1 0)
     (snd (sweep_run 1 (events_from 0))) = [(0, 0)]"
  by (simp_all add: after_update_def pending_residual_def residual_def sweep_defs eval_defs)

text \<open>
  C7.  In every state a \<open>PrioritizedSweep\<close> object goes through: \<open>update_pq\<close>, the only
  place that pushes, adds \<open>(s, a)\<close> to the queue exactly when the residual
  \<open>|plan_algo.terminalReturn(new_s, new_a, r) - Q(s, a)|\<close> strictly exceeds \<open>theta\<close>, and
  so does \<^verbatim>\<open>update\<close>, which never raises.  A round of \<^verbatim>\<open>simulate\<close> on a queue that is not
  empty pops a pair \<open>(s', a')\<close>, replays it, and leaves in the queue the other entries
  followed by exactly those recorded predecessors of \<open>s'\<close> whose residual, recomputed
  with the agent after the replay, the successor \<open>(s', a')\<close> and their modeled reward,
  exceeds \<open>theta\<close>.
\<close>

theorem sweep_enqueues_by_residual:
  assumes "sweep_state A P self"
  shows "pq (update_pq A P self ag s a new_s new_a r) =
           pq self @ (if theta self < residual A P self ag s a new_s new_a r then [(s, a)] else []) \<and>
     (\<exists>self1. PrioritizedSweep_update A P self ag s a new_s new_a r = Inr self1 \<and>
        pq self1 =
          pq self @ (if theta self < residual A P self ag s a new_s new_a r then [(s, a)] else [])) \<and>
     (pq self \<noteq> [] \<longrightarrow>
        (\<exists>s' a' ag1.
           heappop (pq self) = Inr ((s', a'), remove1 (s', a') (pq self)) \<and>
           step_sim A P self ag s' a' = Inr ag1 \<and>
           simulate_body A P self ag =
             ((self\<lparr>pq := remove1 (s', a') (pq self) @
                  filter (\<lambda>p. theta self <
                                residual A P self ag1 (fst p) (snd p) s' a' (modeled_reward self p))
                    (predecessors self s')\<rparr>, ag1), None)))"
proof -
  note c = sweep_state_consistent [OF assms]
  have 1: "pq (update_pq A P self ag s a new_s new_a r) =
           pq self @ (if theta self < residual A P self ag s a new_s new_a r then [(s, a)] else [])"
    by (simp add: update_pq_eq)
  have 2: "\<exists>self1. PrioritizedSweep_update A P self ag s a new_s new_a r = Inr self1 \<and>
        pq self1 =
          pq self @ (if theta self < residual A P self ag s a new_s new_a r then [(s, a)] else [])"
    using update_Inr [OF c, of s a A P ag new_s new_a r] by blast
  have 3: "\<exists>s' a' ag1.
           heappop (pq self) = Inr ((s', a'), remove1 (s', a') (pq self)) \<and>
           step_sim A P self ag s' a' = Inr ag1 \<and>
           simulate_body A P self ag =
             ((self\<lparr>pq := remove1 (s', a') (pq self) @
                  filter (\<lambda>p. theta self <
                                residual A P self ag1 (fst p) (snd p) s' a' (modeled_reward self p))
                    (predecessors self s')\<rparr>, ag1), None)" if "pq self \<noteq> []"
    using simulate_body_eq [OF c that, of A P ag] by blast
  from 1 2 3 show ?thesis by blast
qed

text \<open>
  C8.  The heap entries are the raw pairs.  In every state a \<open>PrioritizedSweep\<close> object
  goes through with a queue that is not empty, the round of \<^verbatim>\<open>simulate\<close> pops and
  replays a queued pair that is smallest in the order of the pairs, which is the
  lexicographic order on state and action.  The residual plays no part: in the run
  from state 0 with \<open>nsim = 1\<close> the queue is \<open>[(0, 0), (1, 0), (1, 0)]\<close> when the fourth call
  simulates, the pending residual of \<open>(0, 0)\<close> is 0 and that of \<open>(1, 0)\<close> is 1.539, and
  the pair replayed is \<open>(0, 0)\<close>.
\<close>

theorem sweep_pops_smallest_pair:
  assumes "sweep_state A P self" and "pq self \<noteq> []"
  shows "(\<exists>s a ag1.
            (s, a) \<in> set (pq self) \<and> (\<forall>x\<in>set (pq self). (s, a) \<le> x) \<and>
            heappop (pq self) = Inr ((s, a), remove1 (s, a) (pq self)) \<and>
            step_sim A P self ag s a = Inr ag1 \<and>
            snd (fst (simulate_body A P self ag)) = ag1 \<and>
            snd (simulate_body A P self ag) = None \<and>
            replayed A P (Suc n) self ag =
              (s, a) # replayed A P n (fst (fst (simulate_body A P self ag))) ag1) \<and>
         (\<forall>x\<in>set (pq self). \<forall>y\<in>set (pq self).
            (x \<le> y) = (fst x < fst y \<or> fst x = fst y \<and> snd x \<le> snd y)) \<and>
         pq (after_update 1 0) = [(0, 0), (1, 0), (1, 0)] \<and>
         pending_residual (table_agent 1) (Sarsa (table_agent 1)) (after_update 1 0)
           (snd (sweep_run 1 (events_from 0))) (0, 0) = 0 \<and>
         pending_residual (table_agent 1) (Sarsa (table_agent 1)) (after_update 1 0)
           (snd (sweep_run 1 (events_from 0))) (1, 0) = 1539 / 1000 \<and>
         replayed (table_agent 1) (Sarsa (table_agent 1)) 1 (after_update 1 0)
           (snd (sweep_run 1 (events_from 0))) = [(0, 0)]"
proof -
  note c = sweep_state_consistent [OF assms(1)]
  obtain s a ag1 where hp: "heappop (pq self) = Inr ((s, a), remove1 (s, a) (pq self))"
    and mem: "(s, a) \<in> set (pq self)" and le: "\<forall>x\<in>set (pq self). (s, a) \<le> x"
    and ss: "step_sim A P self ag s a = Inr ag1"
    and body: "simulate_body A P self ag =
        ((self\<lparr>pq := remove1 (s, a) (pq self) @
            filter (\<lambda>p. residual A P self ag1 (fst p) (snd p) s a (modeled_reward self p) > theta self)
              (predecessors self s)\<rparr>, ag1), None)"
    using simulate_body_eq [OF c assms(2), of A P ag] by blast
  have rp: "replayed A P (Suc n) self ag =
              (s, a) # replayed A P n (fst (fst (simulate_body A P self ag))) ag1"
    by (simp add: hp body)
  have 1: "\<exists>s a ag1.
            (s, a) \<in> set (pq self) \<and> (\<forall>x\<in>set (pq self). (s, a) \<le> x) \<and>
            heappop (pq self) = Inr ((s, a), remove1 (s, a) (pq self)) \<and>
            step_sim A P self ag s a = Inr ag1 \<and>
            snd (fst (simulate_body A P self ag)) = ag1 \<and>
            snd (simulate_body A P self ag) = None \<and>
            replayed A P (Suc n) self ag =
              (s, a) # replayed A P n (fst (fst (simulate_body A P self ag))) ag1"
    using hp mem le ss rp by (auto simp: body)
  have 2: "\<forall>x\<in>set (pq self). \<forall>y\<in>set (pq self).
            (x \<le> y) = (fst x < fst y \<or> fst x = fst y \<and> snd x \<le> snd y)"
    by (auto simp: less_eq_prod_def)
  from 1 2 after_update_1_0(1,3,4,5) show ?thesis by (intro conjI) assumption+
qed

text \<open>
  C10.  \<open>update_pq\<close> appends \<open>(s, a)\<close> whenever the residual exceeds \<open>theta\<close>, whatever
  the queue holds.  In the run from state 1 with \<open>nsim = 2\<close> the queue is \<open>[(0, 0)]\<close>
  before the fourth real transition; its \<^verbatim>\<open>update\<close> leaves the queue \<open>[(0, 0), (0, 0)]\<close>,
  and the \<^verbatim>\<open>simulate\<close> of that call, which is two rounds of its loop, pops and replays
  \<open>(0, 0)\<close> in both.
\<close>

theorem sweep_queue_holds_duplicates:
  "(\<forall>self ag s a new_s new_a r.
      theta self < residual A P self ag s a new_s new_a r \<longrightarrow>
      pq (update_pq A P self ag s a new_s new_a r) = pq self @ [(s, a)]) \<and>
   PrioritizedSweep_update (table_agent 1) (Sarsa (table_agent 1))
     (fst (sweep_run 2 (events_from 1))) (snd (sweep_run 2 (events_from 1))) 0 0 1 0 1 =
     Inr (after_update 2 1) \<and>
   pq (fst (sweep_run 2 (events_from 1))) = [(0, 0)] \<and>
   pq (after_update 2 1) = [(0, 0), (0, 0)] \<and>
   nsim (after_update 2 1) = 2 \<and>
   replayed (table_agent 1) (Sarsa (table_agent 1)) 2 (after_update 2 1)
     (snd (sweep_run 2 (events_from 1))) = [(0, 0), (0, 0)] \<and>
   map_sum id fst (heappop (pq (after_update 2 1))) = Inr (0, 0) \<and>
   map_sum id fst (heappop (pq (fst (fst (simulate_body (table_agent 1) (Sarsa (table_agent 1))
      (after_update 2 1) (snd (sweep_run 2 (events_from 1)))))))) = Inr (0, 0) \<and>
   PrioritizedSweep_simulate (table_agent 1) (Sarsa (table_agent 1)) (after_update 2 1)
      (snd (sweep_run 2 (events_from 1))) =
   simulate_body (table_agent 1) (Sarsa (table_agent 1))
     (fst (fst (simulate_body (table_agent 1) (Sarsa (table_agent 1)) (after_update 2 1)
        (snd (sweep_run 2 (events_from 1))))))
     (snd (fst (simulate_body (table_agent 1) (Sarsa (table_agent 1)) (after_update 2 1)
        (snd (sweep_run 2 (events_from 1))))))"
proof -
  have 1: "\<forall>self ag s a new_s new_a r.
      theta self < residual A P self ag s a new_s new_a r \<longrightarrow>
      pq (update_pq A P self ag s a new_s new_a r) = pq self @ [(s, a)]"
    by (simp add: update_pq_eq)
  have 2: "PrioritizedSweep_update (table_agent 1) (Sarsa (table_agent 1))
     (fst (sweep_run 2 (events_from 1))) (snd (sweep_run 2 (events_from 1))) 0 0 1 0 1 =
     Inr (after_update 2 1)"
    using after_update_Inr [of 2 1] by simp
  from 1 2 after_update_2_1(1,2,3) replayed_2_1 bodies_2_1 show ?thesis
    by (intro conjI) assumption+
qed

text \<open>
  C7 inside the fourth call of the run from state 1.
\<close>

theorem sweep_enqueues_by_residual_witness:
  "sweep_state (table_agent 1) (Sarsa (table_agent 1)) (after_update 2 1) \<and>
   pq (after_update 2 1) \<noteq> [] \<and>
   (\<exists>s' a' ag1.
      heappop (pq (after_update 2 1)) = Inr ((s', a'), remove1 (s', a') (pq (after_update 2 1))) \<and>
      step_sim (table_agent 1) (Sarsa (table_agent 1)) (after_update 2 1)
        (snd (sweep_run 2 (events_from 1))) s' a' = Inr ag1 \<and>
      simulate_body (table_agent 1) (Sarsa (table_agent 1)) (after_update 2 1)
        (snd (sweep_run 2 (events_from 1))) =
        (((after_update 2 1)\<lparr>pq := remove1 (s', a') (pq (after_update 2 1)) @
             filter (\<lambda>p. theta (after_update 2 1) <
                           residual (table_agent 1) (Sarsa (table_agent 1)) (after_update 2 1) ag1
                             (fst p) (snd p) s' a' (modeled_reward (after_update 2 1) p))
               (predecessors (after_update 2 1) s')\<rparr>, ag1), None))"
proof -
  have ne: "pq (after_update 2 1) \<noteq> []" unfolding after_update_2_1(2) by simp
  from sweep_enqueues_by_residual [OF after_update_state [of 2 1],
      of "snd (sweep_run 2 (events_from 1))" 0 0 0 0 0] ne
  have "\<exists>s' a' ag1.
      heappop (pq (after_update 2 1)) = Inr ((s', a'), remove1 (s', a') (pq (after_update 2 1))) \<and>
      step_sim (table_agent 1) (Sarsa (table_agent 1)) (after_update 2 1)
        (snd (sweep_run 2 (events_from 1))) s' a' = Inr ag1 \<and>
      simulate_body (table_agent 1) (Sarsa (table_agent 1)) (after_update 2 1)
        (snd (sweep_run 2 (events_from 1))) =
        (((after_update 2 1)\<lparr>pq := remove1 (s', a') (pq (after_update 2 1)) @
             filter (\<lambda>p. theta (after_update 2 1) <
                           residual (table_agent 1) (Sarsa (table_agent 1)) (after_update 2 1) ag1
                             (fst p) (snd p) s' a' (modeled_reward (after_update 2 1) p))
               (predecessors (after_update 2 1) s')\<rparr>, ag1), None)"
    by blast
  with after_update_state [of 2 1] ne show ?thesis by (intro conjI) assumption+
qed

text \<open>
  C8 inside the fourth call of the run from state 0.
\<close>

theorem sweep_pops_smallest_pair_witness:
  "sweep_state (table_agent 1) (Sarsa (table_agent 1)) (after_update 1 0) \<and>
   pq (after_update 1 0) \<noteq> [] \<and>
   heappop (pq (after_update 1 0)) = Inr ((0, 0), [(1, 0), (1, 0)])"
proof -
  have ne: "pq (after_update 1 0) \<noteq> []" unfolding after_update_1_0(1) by simp
  from sweep_pops_smallest_pair [OF after_update_state [of 1 0] ne,
      of "snd (sweep_run 1 (events_from 0))" 0]
  obtain s a where mem: "(s, a) \<in> set (pq (after_update 1 0))"
    and le: "\<forall>x\<in>set (pq (after_update 1 0)). (s, a) \<le> x"
    and hp: "heappop (pq (after_update 1 0)) = Inr ((s, a), remove1 (s, a) (pq (after_update 1 0)))"
    by blast
  from mem le have "(s, a) = (0, 0)"
    unfolding after_update_1_0(1) by auto
  with hp have "heappop (pq (after_update 1 0)) = Inr ((0, 0), [(1, 0), (1, 0)])"
    unfolding after_update_1_0(1) by simp
  with after_update_state [of 1 0] ne show ?thesis by (intro conjI) assumption+
qed

text \<open>
  C10 at the fourth real transition of the run from state 1: the residual of \<open>(0, 0)\<close>
  exceeds \<open>theta\<close> and the push makes the queue \<open>[(0, 0), (0, 0)]\<close>.
\<close>

theorem sweep_queue_holds_duplicates_witness:
  "theta (fst (sweep_run 2 (events_from 1))) <
     residual (table_agent 1) (Sarsa (table_agent 1)) (fst (sweep_run 2 (events_from 1)))
       (snd (sweep_run 2 (events_from 1))) 0 0 1 0 1 \<and>
   pq (update_pq (table_agent 1) (Sarsa (table_agent 1)) (fst (sweep_run 2 (events_from 1)))
         (snd (sweep_run 2 (events_from 1))) 0 0 1 0 1) = [(0, 0), (0, 0)]"
proof -
  have lt: "theta (fst (sweep_run 2 (events_from 1))) <
     residual (table_agent 1) (Sarsa (table_agent 1)) (fst (sweep_run 2 (events_from 1)))
       (snd (sweep_run 2 (events_from 1))) 0 0 1 0 1"
    unfolding after_update_2_1(4,5) by simp
  note inst = sweep_queue_holds_duplicates [of "table_agent 1" "Sarsa (table_agent 1)"]
  from inst lt have "pq (update_pq (table_agent 1) (Sarsa (table_agent 1))
        (fst (sweep_run 2 (events_from 1))) (snd (sweep_run 2 (events_from 1))) 0 0 1 0 1) =
      pq (fst (sweep_run 2 (events_from 1))) @ [(0, 0)]"
    by blast
  moreover from inst have "pq (fst (sweep_run 2 (events_from 1))) = [(0, 0)]" by blast
  ultimately have "pq (update_pq (table_agent 1) (Sarsa (table_agent 1))
        (fst (sweep_run 2 (events_from 1))) (snd (sweep_run 2 (events_from 1))) 0 0 1 0 1) =
      [(0, 0), (0, 0)]" by simp
  with lt show ?thesis by (intro conjI) assumption+
qed

end
